theory Spec2Isabelle
  imports Main "HOL-Library.Sublist"
begin

section \<open>Python values and exceptions\<close>

text \<open>
  Both programs handle decoded JSON as untyped Python values. A dict is kept as the list of
  its items in insertion order; a lookup takes the first entry of a key. Floats are left
  out: neither program inspects one. Strings are lists of 8-bit characters, read as the
  code points below 256; among those the regular expression class \<open>\d\<close> holds exactly
  the ten ASCII digits.
\<close>

datatype json =
    JNull
  | JBool bool
  | JInt int
  | JStr string
  | JArr "json list"
  | JObj "(string \<times> json) list"

text \<open>
  The exceptions that can leave a function. \<open>SystemExit m\<close> is \<open>sys.exit(m)\<close> with a
  message: the interpreter prints \<open>m\<close> and the process ends with status 1.
  \<open>OSError\<close> is the plain \<open>OSError\<close> of a name or path that is too long.
  \<open>RemoteError\<close> stands for whatever the HTTP or GraphQL client raises on a failed
  request.
\<close>

datatype py_error =
    SystemExit string
  | NotImplementedError
  | OverflowError
  | ValueError
  | KeyError string
  | TypeError
  | AssertionError
  | FileNotFoundError
  | FileExistsError
  | IsADirectoryError
  | NotADirectoryError
  | OSError
  | RemoteError string

text \<open>Subscription \<open>dct[key]\<close> with a string key.\<close>

definition getitem :: "json \<Rightarrow> string \<Rightarrow> py_error + json" where
  "getitem dct key =
     (case dct of
        JObj kvs \<Rightarrow> (case map_of kvs key of None \<Rightarrow> Inl (KeyError key) | Some v \<Rightarrow> Inr v)
      | _ \<Rightarrow> Inl TypeError)"

text \<open>
  Item assignment \<open>dct[key] = v\<close>: an existing key keeps its position, a new one goes
  last; anything but a dict refuses a string key.
\<close>

fun update_item :: "string \<Rightarrow> json \<Rightarrow> (string \<times> json) list \<Rightarrow> (string \<times> json) list" where
  "update_item k v [] = [(k, v)]"
| "update_item k v (p # ps) = (if fst p = k then (k, v) # ps else p # update_item k v ps)"

definition setitem :: "json \<Rightarrow> string \<Rightarrow> json \<Rightarrow> py_error + json" where
  "setitem dct key v =
     (case dct of JObj kvs \<Rightarrow> Inr (JObj (update_item key v kvs)) | _ \<Rightarrow> Inl TypeError)"

text \<open>Truth value of a decoded JSON value, as \<open>if x:\<close> tests it.\<close>

definition truthy :: "json \<Rightarrow> bool" where
  "truthy v =
     (case v of
        JNull \<Rightarrow> False
      | JBool b \<Rightarrow> b
      | JInt n \<Rightarrow> n \<noteq> 0
      | JStr s \<Rightarrow> s \<noteq> []
      | JArr xs \<Rightarrow> xs \<noteq> []
      | JObj kvs \<Rightarrow> kvs \<noteq> [])"

text \<open>
  What a \<open>for\<close> loop iterates over: the elements of a list, the keys of a dict, the
  characters of a string; other values are not iterable.
\<close>

definition iterate :: "json \<Rightarrow> py_error + json list" where
  "iterate v =
     (case v of
        JArr xs \<Rightarrow> Inr xs
      | JObj kvs \<Rightarrow> Inr (map (\<lambda>p. JStr (fst p)) kvs)
      | JStr s \<Rightarrow> Inr (map (\<lambda>c. JStr [c]) s)
      | _ \<Rightarrow> Inl TypeError)"

text \<open>\<open>s.split(sep)\<close> with a one-character separator, and \<open>sep.join(xs)\<close>.\<close>

fun split :: "char \<Rightarrow> string \<Rightarrow> string list" where
  "split sep [] = [[]]"
| "split sep (c # cs) =
     (if c = sep then [] # split sep cs
      else (case split sep cs of
              [] \<Rightarrow> [[c]]
            | part # parts \<Rightarrow> (c # part) # parts))"

fun join :: "string \<Rightarrow> string list \<Rightarrow> string" where
  "join sep [] = []"
| "join sep [x] = x"
| "join sep (x # y # ys) = x @ sep @ join sep (y # ys)"

section \<open>Instants and durations\<close>

text \<open>
  A \<open>datetime\<close> is the number of microseconds since \<open>datetime.min\<close>
  (0001-01-01T00:00:00); \<open>datetime.max\<close> is the last microsecond of the year 9999,
  3652059 days later. A \<open>timedelta\<close> is a number of microseconds whose whole days must
  not exceed 999999999 in magnitude.
\<close>

type_synonym datetime = int

definition us_per_day :: int where
  "us_per_day = 86400000000"

definition datetime_max :: datetime where
  "datetime_max = 3652059 * us_per_day - 1"

text \<open>\<open>timedelta(weeks=w, days=d, hours=h, minutes=m)\<close>.\<close>

definition timedelta :: "int \<Rightarrow> int \<Rightarrow> int \<Rightarrow> int \<Rightarrow> py_error + int" where
  "timedelta w d h m =
     (let us = (((w * 7 + d) * 24 + h) * 60 + m) * 60000000
      in if \<bar>us div us_per_day\<bar> > 999999999 then Inl OverflowError else Inr us)"

text \<open>\<open>t - delta\<close> on a \<open>datetime\<close>: the result has to be a representable instant.\<close>

definition datetime_sub :: "datetime \<Rightarrow> int \<Rightarrow> py_error + datetime" where
  "datetime_sub t delta =
     (let r = t - delta
      in if 0 \<le> r \<and> r \<le> datetime_max then Inr r else Inl OverflowError)"

section \<open>The Python library, as far as the programs call it\<close>

text \<open>
  Library functions whose results the programs only pass on are parameters:
  \<open>datetime.fromisoformat\<close> (\<open>None\<close> for its \<open>ValueError\<close>),
  \<open>json.dumps(obj, indent=i, sort_keys=b)\<close> and \<open>str\<close> of a list or a dict; the last
  two may raise.
\<close>

record python =
  fromisoformat :: "string \<Rightarrow> datetime option"
  json_dumps :: "json \<Rightarrow> nat \<Rightarrow> bool \<Rightarrow> py_error + string"
  str_value :: "json \<Rightarrow> py_error + string"

text \<open>
  Conversions between integers and decimal strings raise \<open>ValueError\<close> beyond 4300
  digits, the default of \<open>sys.int_max_str_digits\<close> in CPython 3.11 and in the patched
  releases before it. \<open>int(s)\<close> counts the digits of the string, leading zeros too;
  formatting counts the digits of the result, not its sign.
\<close>

definition int_max_str_digits :: nat where
  "int_max_str_digits = 4300"

fun str_nat :: "nat \<Rightarrow> string" where
  "str_nat n =
     (if n < 10 then [''0123456789'' ! n]
      else str_nat (n div 10) @ [''0123456789'' ! (n mod 10)])"

declare str_nat.simps [simp del]

definition str_int :: "int \<Rightarrow> string" where
  "str_int i = (if i < 0 then CHR ''-'' # str_nat (nat (- i)) else str_nat (nat i))"

definition format_int :: "int \<Rightarrow> py_error + string" where
  "format_int i =
     (if int_max_str_digits < length (str_nat (nat \<bar>i\<bar>)) then Inl ValueError
      else Inr (str_int i))"

text \<open>A JSON value inside an f-string.\<close>

definition format_value :: "python \<Rightarrow> json \<Rightarrow> py_error + string" where
  "format_value py v =
     (case v of
        JNull \<Rightarrow> Inr ''None''
      | JBool b \<Rightarrow> Inr (if b then ''True'' else ''False'')
      | JInt i \<Rightarrow> format_int i
      | JStr s \<Rightarrow> Inr s
      | _ \<Rightarrow> str_value py v)"

definition isdigit :: "char \<Rightarrow> bool" where
  "isdigit c = (c \<in> set ''0123456789'')"

text \<open>The number that a string of decimal digits denotes, and \<open>int(s)\<close> on such a string.\<close>

definition decimal :: "string \<Rightarrow> int" where
  "decimal s = foldl (\<lambda>a c. 10 * a + (of_char c - 48)) 0 s"

definition py_int :: "string \<Rightarrow> py_error + int" where
  "py_int s = (if int_max_str_digits < length s then Inl ValueError else Inr (decimal s))"

text \<open>
  \<open>re.fullmatch(r"(\d+)([units])", s)\<close>: the whole string is one or more digits followed
  by one character of the class; the result holds the two groups.
\<close>

definition re_fullmatch :: "string \<Rightarrow> string \<Rightarrow> (string \<times> char) option" where
  "re_fullmatch units s =
     (if s \<noteq> [] \<and> butlast s \<noteq> [] \<and> list_all isdigit (butlast s) \<and> last s \<in> set units
      then Some (butlast s, last s) else None)"

section \<open>The time-spec parser\<close>

definition not_a_valid_date :: "string \<Rightarrow> string" where
  "not_a_valid_date since' = CHR 0x27 # since' @ CHR 0x27 # '' is not a valid date''"

text \<open>\<open>parse_since\<close> of \<open>ghi_scraper.py\<close> (the list variant).\<close>

definition parse_since_list :: "python \<Rightarrow> datetime \<Rightarrow> string \<Rightarrow> py_error + datetime" where
  "parse_since_list py now since' =
     (case fromisoformat py since' of
        Some t \<Rightarrow> Inr t
      | None \<Rightarrow>
          (case re_fullmatch ''wdHM'' since' of
             None \<Rightarrow> Inl (SystemExit (not_a_valid_date since'))
           | Some (digits, unit) \<Rightarrow>
               (case py_int digits of
                  Inl e \<Rightarrow> Inl e
                | Inr v \<Rightarrow>
                    (case (if unit = CHR ''w'' then timedelta v 0 0 0
                           else if unit = CHR ''d'' then timedelta 0 v 0 0
                           else if unit = CHR ''H'' then timedelta 0 0 v 0
                           else if unit = CHR ''M'' then timedelta 0 0 0 v
                           else Inl NotImplementedError) of
                       Inl e \<Rightarrow> Inl e
                     | Inr delta \<Rightarrow> datetime_sub now delta))))"

text \<open>\<open>parse_since\<close> of \<open>ghi_scraper/__main__.py\<close> (the graph variant).\<close>

definition parse_since_graph :: "python \<Rightarrow> datetime \<Rightarrow> string \<Rightarrow> py_error + datetime" where
  "parse_since_graph py now since' =
     (case fromisoformat py since' of
        Some t \<Rightarrow> Inr t
      | None \<Rightarrow>
          (case re_fullmatch ''wdh'' since' of
             None \<Rightarrow> Inl (SystemExit (not_a_valid_date since'))
           | Some (digits, unit) \<Rightarrow>
               (case py_int digits of
                  Inl e \<Rightarrow> Inl e
                | Inr v \<Rightarrow>
                    (case (if unit = CHR ''w'' then timedelta v 0 0 0
                           else if unit = CHR ''d'' then timedelta 0 v 0 0
                           else if unit = CHR ''h'' then timedelta 0 0 v 0
                           else Inl NotImplementedError) of
                       Inl e \<Rightarrow> Inl e
                     | Inr delta \<Rightarrow> datetime_sub now delta))))"

section \<open>Paths and the file system\<close>

text \<open>
  A \<open>pathlib\<close> path on a POSIX system: its root (empty for a relative path, \<open>/\<close>, or
  \<open>//\<close> for exactly two leading slashes) and its parts, which are what lies between
  the slashes, with empty parts and \<open>.\<close> dropped and \<open>..\<close> kept. \<open>p / name\<close> parses
  \<open>name\<close> the same way: a rooted name replaces \<open>p\<close>, any other adds its parts.
  \<open>fspath\<close> is the string that goes to the operating system.
\<close>

record pure_path =
  root :: string
  parts :: "string list"

definition path_root :: "string \<Rightarrow> string" where
  "path_root s =
     (let n = length (takeWhile (\<lambda>c. c = CHR ''/'') s)
      in if n = 0 then [] else if n = 2 then ''//'' else ''/'')"

definition Path :: "string \<Rightarrow> pure_path" where
  "Path s =
     \<lparr>root = path_root s,
      parts = filter (\<lambda>part. part \<noteq> [] \<and> part \<noteq> ''.'') (split CHR ''/'' s)\<rparr>"

definition div_path :: "pure_path \<Rightarrow> string \<Rightarrow> pure_path" where
  "div_path p name =
     (let q = Path name
      in if root q \<noteq> [] then q else \<lparr>root = root p, parts = parts p @ parts q\<rparr>)"

definition fspath :: "pure_path \<Rightarrow> string" where
  "fspath p =
     (if root p = [] \<and> parts p = [] then ''.'' else root p @ join ''/'' (parts p))"

text \<open>
  The file system: the working directory of the process, the existing directories and the
  contents of the regular files, each named by the list of components that leads to it
  from the root directory \<open>[]\<close>. Symbolic links, permissions and free space are not
  modelled.

  The system walks a path component by component, from the root or from the working
  directory. The place it stands in has to be a directory; \<open>..\<close> leads to the parent of
  that place, whatever the path said before; a component of more than 255 bytes is
  refused. The last component need not exist. Before the walk, a path with a null
  character is refused by Python and a path of 4096 bytes or more by the system. A
  character from 128 on takes two bytes.
\<close>

record filesystem =
  cwd :: "string list"
  dirs :: "string list set"
  files :: "string list \<rightharpoonup> string"

definition NAME_MAX :: nat where
  "NAME_MAX = 255"

definition PATH_MAX :: nat where
  "PATH_MAX = 4096"

definition fs_length :: "string \<Rightarrow> nat" where
  "fs_length s = length s + length (filter (\<lambda>c. 128 \<le> (of_char c :: nat)) s)"

fun walk :: "filesystem \<Rightarrow> string list \<Rightarrow> string list \<Rightarrow> py_error + string list" where
  "walk fsys here [] = Inr here"
| "walk fsys here (c # cs) =
     (if here \<notin> dirs fsys
      then Inl (if here \<in> dom (files fsys) then NotADirectoryError else FileNotFoundError)
      else if c = ''..'' then walk fsys (butlast here) cs
      else if NAME_MAX < fs_length c then Inl OSError
      else walk fsys (here @ [c]) cs)"

definition resolve :: "filesystem \<Rightarrow> pure_path \<Rightarrow> py_error + string list" where
  "resolve fsys p =
     (if CHR 0x00 \<in> set (fspath p) then Inl ValueError
      else if PATH_MAX \<le> fs_length (fspath p) then Inl OSError
      else walk fsys (if root p = [] then cwd fsys else []) (parts p))"

text \<open>
  \<open>p.is_dir()\<close> answers \<open>False\<close> where the path leads nowhere and lets the error of a
  name that is too long through. \<open>is_dir\<close> says that the answer is \<open>True\<close>.
\<close>

definition path_is_dir :: "pure_path \<Rightarrow> filesystem \<Rightarrow> py_error + bool" where
  "path_is_dir p fsys =
     (case resolve fsys p of
        Inr place \<Rightarrow> Inr (place \<in> dirs fsys)
      | Inl e \<Rightarrow>
          if e = ValueError \<or> e = FileNotFoundError \<or> e = NotADirectoryError then Inr False
          else Inl e)"

definition is_dir :: "pure_path \<Rightarrow> filesystem \<Rightarrow> bool" where
  "is_dir p fsys = (path_is_dir p fsys = Inr True)"

text \<open>\<open>p.mkdir(exist_ok=True)\<close>.\<close>

definition mkdir :: "pure_path \<Rightarrow> filesystem \<Rightarrow> py_error + filesystem" where
  "mkdir p fsys =
     (case resolve fsys p of
        Inl e \<Rightarrow> Inl e
      | Inr place \<Rightarrow>
          if place \<in> dirs fsys then Inr fsys
          else if place \<in> dom (files fsys) then Inl FileExistsError
          else if butlast place \<in> dirs fsys then Inr (fsys\<lparr>dirs := insert place (dirs fsys)\<rparr>)
          else Inl FileNotFoundError)"

text \<open>\<open>p.write_text(text)\<close>: the file is created or truncated.\<close>

definition write_text :: "pure_path \<Rightarrow> string \<Rightarrow> filesystem \<Rightarrow> py_error + filesystem" where
  "write_text p text' fsys =
     (case resolve fsys p of
        Inl e \<Rightarrow> Inl e
      | Inr place \<Rightarrow>
          if place \<in> dirs fsys then Inl IsADirectoryError
          else if butlast place \<in> dirs fsys
          then Inr (fsys\<lparr>files := (files fsys)(place \<mapsto> text')\<rparr>)
          else Inl FileNotFoundError)"

section \<open>The process and its surroundings\<close>

text \<open>
  What a run finds: the environment variable (the empty string when unset, as
  \<open>os.getenv("GITHUB_TOKEN", "")\<close> gives it), the reading of the clock, the outcome of
  the n-th request of the run to the remote API, and the outcome of reading the schema
  file shipped beside the graph variant.
\<close>

record environ =
  GITHUB_TOKEN :: string
  clock :: datetime
  responses :: "nat \<Rightarrow> py_error + json"
  schema_file :: "py_error + string"

text \<open>The GraphQL client of the graph variant: endpoint, authorization header, schema.\<close>

record client =
  transport_url :: string
  transport_authorization :: string
  schema :: string

text \<open>
  What a run changes or leaves behind: the file system, the requests sent so far (oldest
  first), the clients constructed so far and the messages logged at error level.
  Lines logged at info level are not modelled.
\<close>

record 'r world =
  fs :: filesystem
  requests :: "'r list"
  clients :: "client list"
  errlog :: "string list"

record ScrapInfo =
  project :: string
  out_dir :: pure_path
  since :: "datetime option"

text \<open>
  The command line as \<open>argparse\<close> hands it over; what \<open>argparse\<close> itself
  rejects never reaches \<open>main\<close>'s own checks and is left out.
\<close>

record arguments =
  arg_since :: "string option"
  arg_project :: string
  arg_out_dir :: string

text \<open>
  A \<open>for\<close> loop over a list whose body may raise: the first exception ends the loop, and
  the effects of the iterations before it stay.
\<close>

fun for_each :: "('a \<Rightarrow> 's \<Rightarrow> (py_error + unit) \<times> 's) \<Rightarrow> 'a list \<Rightarrow> 's \<Rightarrow> (py_error + unit) \<times> 's" where
  "for_each body [] s = (Inr (), s)"
| "for_each body (x # xs) s =
     (case body x s of
        (Inl e, s') \<Rightarrow> (Inl e, s')
      | (Inr u, s') \<Rightarrow> for_each body xs s')"

section \<open>The list variant: \<open>ghi_scraper.py\<close>\<close>

definition PAGE_SIZE :: nat where
  "PAGE_SIZE = 100"

text \<open>
  \<open>"pull_request" in dct\<close>: a key of a dict, an element of a list, a substring of a
  string; other values do not support \<open>in\<close>.
\<close>

definition is_pull_request :: "json \<Rightarrow> py_error + bool" where
  "is_pull_request dct =
     (case dct of
        JObj kvs \<Rightarrow> Inr (''pull_request'' \<in> set (map fst kvs))
      | JArr xs \<Rightarrow> Inr (JStr ''pull_request'' \<in> set xs)
      | JStr s \<Rightarrow> Inr (sublist ''pull_request'' s)
      | _ \<Rightarrow> Inl TypeError)"

text \<open>The body of the loop \<open>for dct in lst\<close> in \<open>scrap_page\<close>.\<close>

definition write_item_list :: "python \<Rightarrow> ScrapInfo \<Rightarrow> json \<Rightarrow> filesystem \<Rightarrow> (py_error + unit) \<times> filesystem" where
  "write_item_list py info dct fsys =
     (case is_pull_request dct of
        Inl e \<Rightarrow> (Inl e, fsys)
      | Inr pr \<Rightarrow>
          (let sub_dir = (if pr then ''pulls'' else ''issues'');
               item_dir = div_path (out_dir info) sub_dir
           in case mkdir item_dir fsys of
                Inl e \<Rightarrow> (Inl e, fsys)
              | Inr fs1 \<Rightarrow>
                  (case getitem dct ''number'' of
                     Inl e \<Rightarrow> (Inl e, fs1)
                   | Inr item_id \<Rightarrow>
                       (case format_value py item_id of
                          Inl e \<Rightarrow> (Inl e, fs1)
                        | Inr formatted \<Rightarrow>
                            (let item_path = div_path item_dir (formatted @ ''.json'')
                             in case json_dumps py dct 2 True of
                                  Inl e \<Rightarrow> (Inl e, fs1)
                                | Inr text' \<Rightarrow>
                                    (case getitem dct ''title'' of
                                       Inl e \<Rightarrow> (Inl e, fs1)
                                     | Inr title \<Rightarrow>
                                         (case write_text item_path text' fs1 of
                                            Inl e \<Rightarrow> (Inl e, fs1)
                                          | Inr fs2 \<Rightarrow> (Inr (), fs2))))))))"

record rest_request =
  url :: string
  header_accept :: string
  header_authorization :: string
  param_state :: string
  param_per_page :: nat
  param_page :: nat
  param_since :: "datetime option"

definition page_request :: "environ \<Rightarrow> ScrapInfo \<Rightarrow> nat \<Rightarrow> rest_request" where
  "page_request env info page =
     \<lparr>url = ''https://api.github.com/repos/'' @ project info @ ''/issues'',
      header_accept = ''application/vnd.github+json'',
      header_authorization = ''Bearer '' @ GITHUB_TOKEN env,
      param_state = ''all'',
      param_per_page = PAGE_SIZE,
      param_page = page,
      param_since = since info\<rparr>"

text \<open>
  \<open>scrap_page\<close>: one request, then one file per item. The result tells whether a
  further page is to be fetched.
\<close>

definition scrap_page_list :: "python \<Rightarrow> environ \<Rightarrow> ScrapInfo \<Rightarrow> nat \<Rightarrow> rest_request world \<Rightarrow> (py_error + bool) \<times> rest_request world" where
  "scrap_page_list py env info page w =
     (let w1 = w\<lparr>requests := requests w @ [page_request env info page]\<rparr>
      in case responses env (length (requests w)) of
           Inl e \<Rightarrow> (Inl e, w1)
         | Inr body \<Rightarrow>
             (case body of
                JArr lst \<Rightarrow>
                  if lst = [] then (Inr False, w1)
                  else (case for_each (write_item_list py info) lst (fs w1) of
                          (Inl e, fs') \<Rightarrow> (Inl e, w1\<lparr>fs := fs'\<rparr>)
                        | (Inr u, fs') \<Rightarrow> (Inr (length lst = PAGE_SIZE), w1\<lparr>fs := fs'\<rparr>))
              | _ \<Rightarrow> (Inl AssertionError, w1)))"

text \<open>
  The loop \<open>for page in count(1)\<close> of \<open>scrap\<close>, entered at a page index. It need not
  end: \<open>None\<close> is the run that goes on for ever.
\<close>

partial_function (option) scrap_from_page :: "python \<Rightarrow> environ \<Rightarrow> ScrapInfo \<Rightarrow> nat \<Rightarrow> rest_request world \<Rightarrow> ((py_error + unit) \<times> rest_request world) option" where
  "scrap_from_page py env info page w =
     (case scrap_page_list py env info page w of
        (Inl e, w') \<Rightarrow> Some (Inl e, w')
      | (Inr again, w') \<Rightarrow>
          if again then scrap_from_page py env info (Suc page) w' else Some (Inr (), w'))"

definition scrap_list :: "python \<Rightarrow> environ \<Rightarrow> ScrapInfo \<Rightarrow> rest_request world \<Rightarrow> ((py_error + unit) \<times> rest_request world) option" where
  "scrap_list py env info w = scrap_from_page py env info 1 w"

text \<open>
  The block \<open>if args.since: since = parse_since(args.since) else: since = None\<close> of
  both \<open>main\<close> functions, over the variant's parser: an empty string is false.
\<close>

definition since_of_args :: "(string \<Rightarrow> py_error + datetime) \<Rightarrow> string option \<Rightarrow> py_error + datetime option" where
  "since_of_args parse a =
     (case a of
        None \<Rightarrow> Inr None
      | Some s \<Rightarrow>
          if s = [] then Inr None
          else (case parse s of Inl e \<Rightarrow> Inl e | Inr t \<Rightarrow> Inr (Some t)))"

text \<open>
  \<open>main\<close>, run as \<open>sys.exit(main())\<close>: the result is the exception that ends the
  process or the value \<open>main\<close> returns, which becomes the exit status.
\<close>

definition main_list :: "python \<Rightarrow> environ \<Rightarrow> arguments \<Rightarrow> rest_request world \<Rightarrow> ((py_error + int) \<times> rest_request world) option" where
  "main_list py env args w =
     (if GITHUB_TOKEN env = []
      then Some (Inl (SystemExit ''You must define the $GITHUB_TOKEN environment variable''), w)
      else
        (let out_dir' = Path (arg_out_dir args)
         in case path_is_dir out_dir' (fs w) of
              Inl e \<Rightarrow> Some (Inl e, w)
            | Inr is_a_dir \<Rightarrow>
                if \<not> is_a_dir
                then Some (Inl (SystemExit (fspath out_dir' @ '' is not a directory'')), w)
                else
                  (case since_of_args (parse_since_list py (clock env)) (arg_since args) of
                     Inl e \<Rightarrow> Some (Inl e, w)
                   | Inr since' \<Rightarrow>
                       (case scrap_list py env \<lparr>project = arg_project args, out_dir = out_dir', since = since'\<rparr> w of
                          None \<Rightarrow> None
                        | Some (Inl e, w') \<Rightarrow> Some (Inl e, w')
                        | Some (Inr u, w') \<Rightarrow> Some (Inr 0, w')))))"

text \<open>The exit status of the process.\<close>

definition exit_status :: "py_error + int \<Rightarrow> int" where
  "exit_status r = (case r of Inl e \<Rightarrow> 1 | Inr n \<Rightarrow> n)"

section \<open>The graph variant: \<open>ghi_scraper/__main__.py\<close>\<close>

definition FORMAT_KEY :: string where
  "FORMAT_KEY = ''_format''"

definition FORMAT :: int where
  "FORMAT = 2"

text \<open>
  The variables of the query and the client that sends it. The query text is a constant
  of the program and is left out.
\<close>

record gql_request =
  sent_by :: client
  var_owner :: string
  var_name :: string
  var_since :: "datetime option"
  var_issues_after :: json

text \<open>The body of the loop \<open>for edge in edges\<close> in \<open>scrap_page\<close>.\<close>

definition write_item_graph :: "python \<Rightarrow> ScrapInfo \<Rightarrow> json \<Rightarrow> filesystem \<Rightarrow> (py_error + unit) \<times> filesystem" where
  "write_item_graph py info edge fsys =
     (case getitem edge ''node'' of
        Inl e \<Rightarrow> (Inl e, fsys)
      | Inr node \<Rightarrow>
          (case setitem node FORMAT_KEY (JInt FORMAT) of
             Inl e \<Rightarrow> (Inl e, fsys)
           | Inr dct \<Rightarrow>
               (let sub_dir = ''issues'';
                    item_dir = div_path (out_dir info) sub_dir
                in case mkdir item_dir fsys of
                     Inl e \<Rightarrow> (Inl e, fsys)
                   | Inr fs1 \<Rightarrow>
                       (case getitem dct ''number'' of
                          Inl e \<Rightarrow> (Inl e, fs1)
                        | Inr item_id \<Rightarrow>
                            (case format_value py item_id of
                               Inl e \<Rightarrow> (Inl e, fs1)
                             | Inr formatted \<Rightarrow>
                                 (let item_path = div_path item_dir (formatted @ ''.json'')
                                  in case json_dumps py dct 2 True of
                                       Inl e \<Rightarrow> (Inl e, fs1)
                                     | Inr text' \<Rightarrow>
                                         (case getitem dct ''title'' of
                                            Inl e \<Rightarrow> (Inl e, fs1)
                                          | Inr title \<Rightarrow>
                                              (case write_text item_path text' fs1 of
                                                 Inl e \<Rightarrow> (Inl e, fs1)
                                               | Inr fs2 \<Rightarrow> (Inr (), fs2)))))))))"

text \<open>
  The part of \<open>scrap_page\<close> after \<open>client.execute\<close> has returned: the two lookups, the
  loop over the edges, and the choice of the value to return (\<open>JNull\<close> is \<open>None\<close>).
\<close>

definition handle_result :: "python \<Rightarrow> ScrapInfo \<Rightarrow> json \<Rightarrow> filesystem \<Rightarrow> (py_error + json) \<times> filesystem" where
  "handle_result py info result fsys =
     (case getitem result ''repository'' of Inl e \<Rightarrow> (Inl e, fsys) | Inr repo \<Rightarrow>
      case getitem repo ''issues'' of Inl e \<Rightarrow> (Inl e, fsys) | Inr issues \<Rightarrow>
      case getitem issues ''edges'' of Inl e \<Rightarrow> (Inl e, fsys) | Inr edges \<Rightarrow>
      case getitem issues ''pageInfo'' of Inl e \<Rightarrow> (Inl e, fsys) | Inr page_info \<Rightarrow>
      case iterate edges of Inl e \<Rightarrow> (Inl e, fsys) | Inr edge_list \<Rightarrow>
      case for_each (write_item_graph py info) edge_list fsys of
        (Inl e, fs') \<Rightarrow> (Inl e, fs')
      | (Inr u, fs') \<Rightarrow>
          (case getitem page_info ''hasNextPage'' of
             Inl e \<Rightarrow> (Inl e, fs')
           | Inr has_next \<Rightarrow>
               if truthy has_next
               then (case getitem page_info ''endCursor'' of
                       Inl e \<Rightarrow> (Inl e, fs')
                     | Inr end_cursor \<Rightarrow> (Inr end_cursor, fs'))
               else (Inr JNull, fs')))"

definition cursor_request :: "client \<Rightarrow> ScrapInfo \<Rightarrow> string \<Rightarrow> string \<Rightarrow> json \<Rightarrow> gql_request" where
  "cursor_request cl info owner name cursor =
     \<lparr>sent_by = cl,
      var_owner = owner,
      var_name = name,
      var_since = since info,
      var_issues_after = cursor\<rparr>"

text \<open>
  \<open>scrap_page\<close>: the project is split before anything is sent; the result is the cursor
  of the next page, or \<open>JNull\<close> for \<open>None\<close>.
\<close>

definition scrap_page_graph :: "python \<Rightarrow> environ \<Rightarrow> client \<Rightarrow> ScrapInfo \<Rightarrow> json \<Rightarrow> gql_request world \<Rightarrow> (py_error + json) \<times> gql_request world" where
  "scrap_page_graph py env cl info cursor w =
     (case split CHR ''/'' (project info) of
        [owner, name] \<Rightarrow>
          (let w1 = w\<lparr>requests := requests w @ [cursor_request cl info owner name cursor]\<rparr>
           in case responses env (length (requests w)) of
                Inl e \<Rightarrow> (Inl e, w1)
              | Inr result \<Rightarrow>
                  (case handle_result py info result (fs w1) of
                     (r, fs') \<Rightarrow> (r, w1\<lparr>fs := fs'\<rparr>)))
      | _ \<Rightarrow> (Inl ValueError, w))"

text \<open>
  The loop \<open>while True\<close> of \<open>scrap\<close>, entered with a cursor. \<open>None\<close> is the run that
  goes on for ever.
\<close>

partial_function (option) scrap_from_cursor :: "python \<Rightarrow> environ \<Rightarrow> client \<Rightarrow> ScrapInfo \<Rightarrow> json \<Rightarrow> gql_request world \<Rightarrow> ((py_error + unit) \<times> gql_request world) option" where
  "scrap_from_cursor py env cl info cursor w =
     (case scrap_page_graph py env cl info cursor w of
        (Inl e, w') \<Rightarrow> Some (Inl e, w')
      | (Inr cursor', w') \<Rightarrow>
          if cursor' = JNull then Some (Inr (), w')
          else scrap_from_cursor py env cl info cursor' w')"

definition scrap_graph :: "python \<Rightarrow> environ \<Rightarrow> client \<Rightarrow> ScrapInfo \<Rightarrow> gql_request world \<Rightarrow> ((py_error + unit) \<times> gql_request world) option" where
  "scrap_graph py env cl info w = scrap_from_cursor py env cl info JNull w"

text \<open>
  \<open>create_client\<close> reads the schema file and builds the client; nothing is sent. (That
  the schema shipped with the program parses is taken for granted.)
\<close>

definition create_client :: "environ \<Rightarrow> string \<Rightarrow> py_error + client" where
  "create_client env github_token =
     (case schema_file env of
        Inl e \<Rightarrow> Inl e
      | Inr schema' \<Rightarrow>
          Inr \<lparr>transport_url = ''https://api.github.com/graphql'',
               transport_authorization = ''Bearer '' @ github_token,
               schema = schema'\<rparr>)"

definition main_graph :: "python \<Rightarrow> environ \<Rightarrow> arguments \<Rightarrow> gql_request world \<Rightarrow> ((py_error + int) \<times> gql_request world) option" where
  "main_graph py env args w =
     (let out_dir' = Path (arg_out_dir args)
      in case path_is_dir out_dir' (fs w) of
           Inl e \<Rightarrow> Some (Inl e, w)
         | Inr is_a_dir \<Rightarrow>
             if \<not> is_a_dir
             then Some (Inl (SystemExit (fspath out_dir' @ '' is not a directory'')), w)
             else
               (let github_token = GITHUB_TOKEN env
                in if github_token = []
                   then Some (Inr 1, w\<lparr>errlog := errlog w @ [''$GITHUB_TOKEN environment variable not set'']\<rparr>)
                   else
                     (case create_client env github_token of
                        Inl e \<Rightarrow> Some (Inl e, w)
                      | Inr cl \<Rightarrow>
                          (let w1 = w\<lparr>clients := clients w @ [cl]\<rparr>
                           in case since_of_args (parse_since_graph py (clock env)) (arg_since args) of
                                Inl e \<Rightarrow> Some (Inl e, w1)
                              | Inr since' \<Rightarrow>
                                  (case scrap_graph py env cl \<lparr>project = arg_project args, out_dir = out_dir', since = since'\<rparr> w1 of
                                     None \<Rightarrow> None
                                   | Some (Inl e, w') \<Rightarrow> Some (Inl e, w')
                                   | Some (Inr u, w') \<Rightarrow> Some (Inr 0, w'))))))"

section \<open>Reference notions and sample data\<close>

text \<open>
  The duration, in microseconds, that the specification gives a unit letter: weeks, days,
  hours (either case) and minutes.
\<close>

definition unit_duration :: "char \<Rightarrow> int" where
  "unit_duration u =
     (if u = CHR ''w'' then 7 * us_per_day
      else if u = CHR ''d'' then us_per_day
      else if u = CHR ''h'' \<or> u = CHR ''H'' then 3600000000
      else if u = CHR ''M'' then 60000000
      else 0)"

text \<open>
  A library for the worked examples. It stands in for the real one: the parser knows one
  date, the serialiser only names the item it is given.
\<close>

definition sample_python :: python where
  "sample_python =
     \<lparr>fromisoformat = (\<lambda>s. if s = ''0001-01-02'' then Some us_per_day else None),
      json_dumps = (\<lambda>v indent sort_keys.
         Inr (''json of #'' @ (case getitem v ''number'' of Inr (JInt i) \<Rightarrow> str_int i | _ \<Rightarrow> ''?''))),
      str_value = (\<lambda>v. Inr ''?'')\<rparr>"

text \<open>Noon of the eleventh day after \<open>datetime.min\<close>.\<close>

definition sample_clock :: datetime where
  "sample_clock = 10 * us_per_day + 43200000000"

text \<open>
  A plain name is a single component that names an entry of the directory it is looked
  up in: not empty, not \<open>.\<close> or \<open>..\<close>, without a slash or a null character.
\<close>

definition plain :: "string \<Rightarrow> bool" where
  "plain c \<longleftrightarrow> c \<noteq> [] \<and> c \<noteq> ''.'' \<and> c \<noteq> ''..'' \<and> CHR ''/'' \<notin> set c \<and> CHR 0x00 \<notin> set c"

text \<open>
  The steps that the two loop bodies have in common once the category directory and the
  record are known: make the directory, look up the number, name the file, serialise,
  look up the title for the log line, write the file.
\<close>

definition save_steps :: "python \<Rightarrow> pure_path \<Rightarrow> json \<Rightarrow> filesystem \<Rightarrow> (py_error + unit) \<times> filesystem" where
  "save_steps py item_dir dct fsys =
     (case mkdir item_dir fsys of
        Inl e \<Rightarrow> (Inl e, fsys)
      | Inr fs1 \<Rightarrow>
          (case getitem dct ''number'' of
             Inl e \<Rightarrow> (Inl e, fs1)
           | Inr item_id \<Rightarrow>
               (case format_value py item_id of
                  Inl e \<Rightarrow> (Inl e, fs1)
                | Inr formatted \<Rightarrow>
                    (case json_dumps py dct 2 True of
                       Inl e \<Rightarrow> (Inl e, fs1)
                     | Inr text' \<Rightarrow>
                         (case getitem dct ''title'' of
                            Inl e \<Rightarrow> (Inl e, fs1)
                          | Inr title \<Rightarrow>
                              (case write_text (div_path item_dir (formatted @ ''.json'')) text' fs1 of
                                 Inl e \<Rightarrow> (Inl e, fs1)
                               | Inr fs2 \<Rightarrow> (Inr (), fs2)))))))"

text \<open>
  The item writer of the list variant as the specification describes it: the category is
  \<open>pulls\<close> for a record with a \<open>pull_request\<close> key and \<open>issues\<close> for any other, the
  file is \<open>number.json\<close> in the category directory of the output directory, and
  writing an item makes sure the category directory exists and sets the file's content to
  the serialised record, whatever was there before. The output directory is given by its
  place \<open>d\<close> in the file system.
\<close>

definition category :: "json \<Rightarrow> string" where
  "category dct =
     (case dct of
        JObj kvs \<Rightarrow> if ''pull_request'' \<in> fst ` set kvs then ''pulls'' else ''issues''
      | _ \<Rightarrow> ''issues'')"

definition item_file :: "json \<Rightarrow> string" where
  "item_file dct =
     (case getitem dct ''number'' of Inr (JInt i) \<Rightarrow> str_int i @ ''.json'' | _ \<Rightarrow> [])"

definition serialized :: "python \<Rightarrow> json \<Rightarrow> string" where
  "serialized py dct = (case json_dumps py dct 2 True of Inr text' \<Rightarrow> text' | Inl e \<Rightarrow> [])"

definition written_list :: "python \<Rightarrow> string list \<Rightarrow> json \<Rightarrow> filesystem \<Rightarrow> filesystem" where
  "written_list py d dct fsys =
     fsys\<lparr>dirs := insert (d @ [category dct]) (dirs fsys),
          files := (files fsys)(d @ [category dct, item_file dct] \<mapsto> serialized py dct)\<rparr>"

text \<open>
  An item as the remote API sends it: a record with an integer number and a title. Its
  file name has to fit the 255 bytes of a file name and its serialisation has to exist
  (\<open>json.dumps\<close> refuses an integer of more than 4300 digits).
\<close>

definition is_item :: "python \<Rightarrow> json \<Rightarrow> bool" where
  "is_item py dct =
     (case dct of
        JObj kvs \<Rightarrow>
          (case map_of kvs ''number'' of
             Some (JInt i) \<Rightarrow> length (str_int i) + 5 \<le> NAME_MAX
           | _ \<Rightarrow> False) \<and>
          map_of kvs ''title'' \<noteq> None \<and>
          (case json_dumps py dct 2 True of Inr text' \<Rightarrow> True | Inl e \<Rightarrow> False)
      | _ \<Rightarrow> False)"

text \<open>
  Sample data: two items, a working directory with an output directory that holds an
  older file, a process.
\<close>

definition item7 :: json where
  "item7 = JObj [(''number'', JInt 7), (''title'', JStr ''Fix bug''), (''pull_request'', JObj [])]"

definition item8 :: json where
  "item8 = JObj [(''number'', JInt 8), (''title'', JStr ''Crash'')]"

definition sample_fs :: filesystem where
  "sample_fs =
     \<lparr>cwd = [''home'', ''me''],
      dirs = {[], [''home''], [''home'', ''me''], [''home'', ''me'', ''out''],
              [''home'', ''me'', ''out'', ''issues'']},
      files = [[''home'', ''me'', ''out'', ''issues'', ''8.json''] \<mapsto> ''old'']\<rparr>"

definition sample_world :: "'r world" where
  "sample_world = \<lparr>fs = sample_fs, requests = [], clients = [], errlog = []\<rparr>"

definition sample_info :: ScrapInfo where
  "sample_info = \<lparr>project = ''octo/demo'', out_dir = Path ''out'', since = None\<rparr>"

definition sample_env :: "(nat \<Rightarrow> py_error + json) \<Rightarrow> environ" where
  "sample_env rs =
     \<lparr>GITHUB_TOKEN = ''t0ken'', clock = sample_clock, responses = rs, schema_file = Inr ''schema''\<rparr>"

text \<open>A remote that answers with one short page, and one with a full page and then 99 items.\<close>

definition short_page :: "nat \<Rightarrow> py_error + json" where
  "short_page n = (if n = 0 then Inr (JArr [item7, item8]) else Inr (JArr []))"

definition full_then_99 :: "nat \<Rightarrow> py_error + json" where
  "full_then_99 n =
     (if n = 0 then Inr (JArr (replicate 100 item8))
      else if n = 1 then Inr (JArr (replicate 99 item8))
      else Inl (RemoteError ''unexpected request''))"

text \<open>Sample data for the graph variant: a node, query results, command-line arguments.\<close>

definition node5 :: json where
  "node5 = JObj [(''number'', JInt 5), (''title'', JStr ''Typo'')]"

definition graph_result :: "json list \<Rightarrow> json \<Rightarrow> json \<Rightarrow> json" where
  "graph_result nodes has_next end_cursor =
     JObj [(''repository'',
       JObj [(''issues'',
         JObj [(''pageInfo'', JObj [(''endCursor'', end_cursor), (''hasNextPage'', has_next)]),
               (''edges'', JArr (map (\<lambda>node. JObj [(''node'', node)]) nodes))])])]"

definition last_page :: "nat \<Rightarrow> py_error + json" where
  "last_page n =
     (if n = 0 then Inr (graph_result [node5] (JBool False) (JStr ''Y3Vyc29y''))
      else Inl (RemoteError ''unexpected request''))"

definition two_cursor_pages :: "nat \<Rightarrow> py_error + json" where
  "two_cursor_pages n =
     (if n = 0 then Inr (graph_result [node5] (JBool True) (JStr ''Y3Vyc29y''))
      else if n = 1 then Inr (graph_result [] (JBool False) JNull)
      else Inl (RemoteError ''unexpected request''))"

definition sample_args :: arguments where
  "sample_args = \<lparr>arg_since = None, arg_project = ''octo/demo'', arg_out_dir = ''out''\<rparr>"

definition sample_client :: client where
  "sample_client =
     \<lparr>transport_url = ''https://api.github.com/graphql'',
      transport_authorization = ''Bearer t0ken'',
      schema = ''schema''\<rparr>"

text \<open>A remote without items, a project without a slash, surroundings without a token.\<close>

definition no_items :: "nat \<Rightarrow> py_error + json" where
  "no_items n = Inr (JArr [])"

definition unsplit_args :: arguments where
  "unsplit_args = \<lparr>arg_since = None, arg_project = ''octodemo'', arg_out_dir = ''out''\<rparr>"


text \<open>
  Notions for comparing a run with a second run over the files the first one left.
  \<open>grows a b\<close>: \<open>b\<close> can come after \<open>a\<close> (the working directory is the same,
  directories and files are only added, and a regular file never turns into a
  directory). \<open>replays F a b\<close>: the second run is in \<open>b\<close> where the first was in \<open>a\<close>,
  and \<open>F\<close> is where the first run ended: \<open>b\<close> has the directories of \<open>F\<close>, and each file
  of \<open>b\<close> is as in \<open>a\<close> or already as in \<open>F\<close>. A step is \<open>replayable\<close> if, taken in the
  second run, it has the outcome it had in the first and keeps the two runs related.
\<close>

definition grows :: "filesystem \<Rightarrow> filesystem \<Rightarrow> bool" where
  "grows a b \<longleftrightarrow>
     cwd b = cwd a \<and> dirs a \<subseteq> dirs b \<and> dom (files a) \<subseteq> dom (files b) \<and>
     (\<forall>p. p \<in> dom (files a) \<and> p \<notin> dirs a \<longrightarrow> p \<notin> dirs b)"

definition replays :: "filesystem \<Rightarrow> filesystem \<Rightarrow> filesystem \<Rightarrow> bool" where
  "replays F a b \<longleftrightarrow>
     cwd b = cwd a \<and> dirs b = dirs F \<and> (\<forall>p. files b p = files a p \<or> files b p = files F p)"

definition replayable :: "(filesystem \<Rightarrow> (py_error + 'x) \<times> filesystem) \<Rightarrow> bool" where
  "replayable f \<longleftrightarrow>
     (\<forall>a r t. f a = (r, t) \<longrightarrow>
        grows a t \<and>
        (\<forall>F b. grows t F \<and> (\<forall>e. r = Inl e \<longrightarrow> F = t) \<and> replays F a b \<longrightarrow>
           (\<exists>t'. f b = (r, t') \<and> replays F t t')))"

definition same_process :: "'r world \<Rightarrow> 'r world \<Rightarrow> bool" where
  "same_process w v \<longleftrightarrow>
     requests v = requests w \<and> clients v = clients w \<and> errlog v = errlog w"

definition replayable_world :: "('r world \<Rightarrow> (py_error + 'x) \<times> 'r world) \<Rightarrow> bool" where
  "replayable_world f \<longleftrightarrow>
     (\<forall>w r w1. f w = (r, w1) \<longrightarrow>
        grows (fs w) (fs w1) \<and>
        (\<forall>F v. grows (fs w1) F \<and> (\<forall>e. r = Inl e \<longrightarrow> F = fs w1) \<and>
               replays F (fs w) (fs v) \<and> same_process w v \<longrightarrow>
           (\<exists>v1. f v = (r, v1) \<and> replays F (fs w1) (fs v1) \<and> same_process w1 v1)))"

text \<open>
  What the specification says of a file of the graph variant: it lies in the directory
  \<open>issues\<close> of the output directory, is named after the number of an item, and holds the
  serialisation of a record whose field \<open>_format\<close> is 2. A run of the graph variant is
  to change the file system by such files only, and to create no directory but
  \<open>issues\<close>. The output directory is given by its place \<open>d\<close> in the file system.
\<close>

definition stamped_issue_file :: "python \<Rightarrow> string list \<Rightarrow> filesystem \<Rightarrow> string list \<Rightarrow> bool" where
  "stamped_issue_file py d fsys p \<longleftrightarrow>
     (\<exists>i kvs text'. p = d @ [''issues'', str_int i @ ''.json''] \<and>
        files fsys p = Some text' \<and> json_dumps py (JObj kvs) 2 True = Inr text' \<and>
        map_of kvs ''_format'' = Some (JInt 2))"

definition only_stamped_issues :: "python \<Rightarrow> string list \<Rightarrow> filesystem \<Rightarrow> filesystem \<Rightarrow> bool" where
  "only_stamped_issues py d fsys fsys' \<longleftrightarrow>
     cwd fsys' = cwd fsys \<and> dirs fsys \<subseteq> dirs fsys' \<and>
     dirs fsys' \<subseteq> insert (d @ [''issues'']) (dirs fsys) \<and>
     (\<forall>p. files fsys' p \<noteq> files fsys p \<longrightarrow> stamped_issue_file py d fsys' p)"

text \<open>
  The edges of a query result, and what the remote API promises of an edge: the number of
  its node, if the node has one, is an integer.
\<close>

definition edges_of :: "json \<Rightarrow> json list" where
  "edges_of result =
     (case getitem result ''repository'' of Inl e \<Rightarrow> [] | Inr repo \<Rightarrow>
      case getitem repo ''issues'' of Inl e \<Rightarrow> [] | Inr issues \<Rightarrow>
      case getitem issues ''edges'' of Inl e \<Rightarrow> [] | Inr edges \<Rightarrow>
      case iterate edges of Inl e \<Rightarrow> [] | Inr edge_list \<Rightarrow> edge_list)"

definition integer_numbered :: "json \<Rightarrow> bool" where
  "integer_numbered edge =
     (case getitem edge ''node'' of
        Inl e \<Rightarrow> True
      | Inr node \<Rightarrow>
          (case getitem node ''number'' of
             Inl e \<Rightarrow> True
           | Inr n \<Rightarrow> (case n of JInt i \<Rightarrow> True | _ \<Rightarrow> False)))"


section \<open>Properties of the time-spec parser\<close>

lemma timedelta_cases:
  "timedelta a b c d = Inl OverflowError \<or> (\<exists>us. timedelta a b c d = Inr us)"
  by (simp add: timedelta_def Let_def)

lemma datetime_sub_cases:
  "datetime_sub t d = Inl OverflowError \<or> (\<exists>r. datetime_sub t d = Inr r)"
  by (simp add: datetime_sub_def Let_def)

lemma py_int_cases: "py_int s = Inl ValueError \<or> (\<exists>v. py_int s = Inr v)"
  by (simp add: py_int_def)

lemma re_fullmatch_unit: "re_fullmatch units s = Some (ds, u) \<Longrightarrow> u \<in> set units"
  by (auto simp: re_fullmatch_def split: if_splits)

lemma re_fullmatch_append:
  "ds \<noteq> [] \<Longrightarrow> list_all isdigit ds \<Longrightarrow> u \<in> set units \<Longrightarrow>
   re_fullmatch units (ds @ [u]) = Some (ds, u)"
  by (simp add: re_fullmatch_def)

lemma delta_then_sub:
  "(case timedelta a b c d of Inl e \<Rightarrow> Inl e | Inr delta \<Rightarrow> datetime_sub now delta)
   \<noteq> Inl NotImplementedError"
proof (cases "timedelta a b c d")
  case (Inl e)
  with timedelta_cases [of a b c d] show ?thesis by auto
next
  case (Inr us)
  with datetime_sub_cases [of now us] show ?thesis by auto
qed

text \<open>
  C9. In both variants \<open>parse_since\<close> never raises \<open>NotImplementedError\<close>: a string
  that matches the variant's pattern ends in a letter of the pattern's class, and each
  letter of the class has its own branch before the final \<open>else\<close>.
\<close>

theorem parse_since_never_not_implemented:
  "parse_since_list py now s \<noteq> Inl NotImplementedError \<and>
   parse_since_graph py now s \<noteq> Inl NotImplementedError"
proof
  show "parse_since_list py now s \<noteq> Inl NotImplementedError"
  proof (cases "fromisoformat py s")
    case (Some t)
    then show ?thesis by (simp add: parse_since_list_def)
  next
    case None
    show ?thesis
    proof (cases "re_fullmatch ''wdHM'' s")
      case no_match: None
      with None show ?thesis by (simp add: parse_since_list_def)
    next
      case (Some g)
      obtain ds u where g: "g = (ds, u)" by (cases g)
      from Some g have "u \<in> set ''wdHM''" by (auto dest: re_fullmatch_unit)
      then have u: "u = CHR ''w'' \<or> u = CHR ''d'' \<or> u = CHR ''H'' \<or> u = CHR ''M''" by auto
      show ?thesis
      proof (cases "py_int ds")
        case (Inl e)
        with py_int_cases [of ds] None Some g show ?thesis
          by (auto simp: parse_since_list_def)
      next
        case (Inr v)
        with u None Some g show ?thesis
          by (auto simp: parse_since_list_def delta_then_sub)
      qed
    qed
  qed
  show "parse_since_graph py now s \<noteq> Inl NotImplementedError"
  proof (cases "fromisoformat py s")
    case (Some t)
    then show ?thesis by (simp add: parse_since_graph_def)
  next
    case None
    show ?thesis
    proof (cases "re_fullmatch ''wdh'' s")
      case no_match: None
      with None show ?thesis by (simp add: parse_since_graph_def)
    next
      case (Some g)
      obtain ds u where g: "g = (ds, u)" by (cases g)
      from Some g have "u \<in> set ''wdh''" by (auto dest: re_fullmatch_unit)
      then have u: "u = CHR ''w'' \<or> u = CHR ''d'' \<or> u = CHR ''h''" by auto
      show ?thesis
      proof (cases "py_int ds")
        case (Inl e)
        with py_int_cases [of ds] None Some g show ?thesis
          by (auto simp: parse_since_graph_def)
      next
        case (Inr v)
        with u None Some g show ?thesis
          by (auto simp: parse_since_graph_def delta_then_sub)
      qed
    qed
  qed
qed

lemma decimal_foldl_nonneg:
  "0 \<le> a \<Longrightarrow> list_all isdigit ds \<Longrightarrow> 0 \<le> foldl (\<lambda>a c. 10 * a + (of_char c - 48)) (a::int) ds"
proof (induction ds arbitrary: a)
  case Nil
  then show ?case by simp
next
  case (Cons c ds)
  from Cons.prems have "isdigit c" by simp
  then have "(0::int) \<le> of_char c - 48" by (auto simp: isdigit_def)
  with Cons.prems have "0 \<le> 10 * a + (of_char c - 48)" by simp
  with Cons show ?case by simp
qed

lemma decimal_nonneg: "list_all isdigit ds \<Longrightarrow> 0 \<le> decimal ds"
  by (simp add: decimal_def decimal_foldl_nonneg)

lemma timedelta_in_range:
  assumes "0 \<le> us" "us \<le> datetime_max"
  shows "\<not> \<bar>us div us_per_day\<bar> > 999999999"
proof -
  have "us div us_per_day \<le> datetime_max div us_per_day"
    using assms(2) by (simp add: zdiv_mono1 us_per_day_def)
  moreover have "0 \<le> us div us_per_day"
    using assms(1) by (simp add: us_per_day_def pos_imp_zdiv_nonneg_iff)
  moreover have "datetime_max div us_per_day \<le> 999999999"
    by (simp add: datetime_max_def us_per_day_def)
  ultimately show ?thesis by linarith
qed

text \<open>
  What the subtraction of a duration of \<open>v\<close> units gives: the earlier instant if there is
  one, and \<open>OverflowError\<close> from the duration or from the subtraction if there is none.
\<close>

lemma relative_offset:
  assumes v: "0 \<le> v" and k: "0 \<le> k" and now: "now \<le> datetime_max"
    and td: "timedelta a b c d = (let us = v * k in if \<bar>us div us_per_day\<bar> > 999999999 then Inl OverflowError else Inr us)"
  shows "(case timedelta a b c d of Inl e \<Rightarrow> Inl e | Inr delta \<Rightarrow> datetime_sub now delta)
         = (if v * k \<le> now then Inr (now - v * k) else Inl OverflowError)"
proof (cases "v * k \<le> now")
  case True
  have "0 \<le> v * k" using v k by simp
  moreover have "v * k \<le> datetime_max" using True now by simp
  ultimately have "\<not> \<bar>(v * k) div us_per_day\<bar> > 999999999" by (rule timedelta_in_range)
  with td have "timedelta a b c d = Inr (v * k)" by (simp add: Let_def)
  moreover have "datetime_sub now (v * k) = Inr (now - v * k)"
    using True now \<open>0 \<le> v * k\<close> by (simp add: datetime_sub_def Let_def)
  ultimately show ?thesis using True by simp
next
  case False
  then have "datetime_sub now (v * k) = Inl OverflowError"
    by (simp add: datetime_sub_def Let_def)
  with td False show ?thesis by (simp add: Let_def)
qed

lemma parse_since_list_relative:
  assumes "fromisoformat py (ds @ [u]) = None" "ds \<noteq> []" "list_all isdigit ds"
    "now \<le> datetime_max" "u \<in> set ''wdHM''"
  shows "parse_since_list py now (ds @ [u])
         = (if 4300 < length ds then Inl ValueError
            else if decimal ds * unit_duration u \<le> now
            then Inr (now - decimal ds * unit_duration u)
            else Inl OverflowError)"
proof (cases "4300 < length ds")
  case True
  have m: "re_fullmatch ''wdHM'' (ds @ [u]) = Some (ds, u)"
    using assms(2,3,5) by (rule re_fullmatch_append)
  from True assms(1) m show ?thesis
    by (simp add: parse_since_list_def py_int_def int_max_str_digits_def)
next
  case False
  have m: "re_fullmatch ''wdHM'' (ds @ [u]) = Some (ds, u)"
    using assms(2,3,5) by (rule re_fullmatch_append)
  have pi: "py_int ds = Inr (decimal ds)"
    using False by (simp add: py_int_def int_max_str_digits_def)
  have v: "0 \<le> decimal ds" using assms(3) by (rule decimal_nonneg)
  have k: "0 \<le> unit_duration u" by (simp add: unit_duration_def us_per_day_def)
  from assms(5) have "u = CHR ''w'' \<or> u = CHR ''d'' \<or> u = CHR ''H'' \<or> u = CHR ''M''" by auto
  then show ?thesis
  proof (elim disjE)
    assume u: "u = CHR ''w''"
    have "(case timedelta (decimal ds) 0 0 0 of Inl e \<Rightarrow> Inl e | Inr delta \<Rightarrow> datetime_sub now delta)
          = (if decimal ds * unit_duration u \<le> now then Inr (now - decimal ds * unit_duration u)
             else Inl OverflowError)"
      using v k assms(4) by (rule relative_offset) (simp add: timedelta_def unit_duration_def us_per_day_def u)
    with assms(1) m u pi False show ?thesis by (simp add: parse_since_list_def)
  next
    assume u: "u = CHR ''d''"
    have "(case timedelta 0 (decimal ds) 0 0 of Inl e \<Rightarrow> Inl e | Inr delta \<Rightarrow> datetime_sub now delta)
          = (if decimal ds * unit_duration u \<le> now then Inr (now - decimal ds * unit_duration u)
             else Inl OverflowError)"
      using v k assms(4) by (rule relative_offset) (simp add: timedelta_def unit_duration_def us_per_day_def u)
    with assms(1) m u pi False show ?thesis by (simp add: parse_since_list_def)
  next
    assume u: "u = CHR ''H''"
    have "(case timedelta 0 0 (decimal ds) 0 of Inl e \<Rightarrow> Inl e | Inr delta \<Rightarrow> datetime_sub now delta)
          = (if decimal ds * unit_duration u \<le> now then Inr (now - decimal ds * unit_duration u)
             else Inl OverflowError)"
      using v k assms(4) by (rule relative_offset) (simp add: timedelta_def unit_duration_def us_per_day_def u)
    with assms(1) m u pi False show ?thesis by (simp add: parse_since_list_def)
  next
    assume u: "u = CHR ''M''"
    have "(case timedelta 0 0 0 (decimal ds) of Inl e \<Rightarrow> Inl e | Inr delta \<Rightarrow> datetime_sub now delta)
          = (if decimal ds * unit_duration u \<le> now then Inr (now - decimal ds * unit_duration u)
             else Inl OverflowError)"
      using v k assms(4) by (rule relative_offset) (simp add: timedelta_def unit_duration_def us_per_day_def u)
    with assms(1) m u pi False show ?thesis by (simp add: parse_since_list_def)
  qed
qed

lemma parse_since_graph_relative:
  assumes "fromisoformat py (ds @ [u]) = None" "ds \<noteq> []" "list_all isdigit ds"
    "now \<le> datetime_max" "u \<in> set ''wdh''"
  shows "parse_since_graph py now (ds @ [u])
         = (if 4300 < length ds then Inl ValueError
            else if decimal ds * unit_duration u \<le> now
            then Inr (now - decimal ds * unit_duration u)
            else Inl OverflowError)"
proof (cases "4300 < length ds")
  case True
  have m: "re_fullmatch ''wdh'' (ds @ [u]) = Some (ds, u)"
    using assms(2,3,5) by (rule re_fullmatch_append)
  from True assms(1) m show ?thesis
    by (simp add: parse_since_graph_def py_int_def int_max_str_digits_def)
next
  case False
  have m: "re_fullmatch ''wdh'' (ds @ [u]) = Some (ds, u)"
    using assms(2,3,5) by (rule re_fullmatch_append)
  have pi: "py_int ds = Inr (decimal ds)"
    using False by (simp add: py_int_def int_max_str_digits_def)
  have v: "0 \<le> decimal ds" using assms(3) by (rule decimal_nonneg)
  have k: "0 \<le> unit_duration u" by (simp add: unit_duration_def us_per_day_def)
  from assms(5) have "u = CHR ''w'' \<or> u = CHR ''d'' \<or> u = CHR ''h''" by auto
  then show ?thesis
  proof (elim disjE)
    assume u: "u = CHR ''w''"
    have "(case timedelta (decimal ds) 0 0 0 of Inl e \<Rightarrow> Inl e | Inr delta \<Rightarrow> datetime_sub now delta)
          = (if decimal ds * unit_duration u \<le> now then Inr (now - decimal ds * unit_duration u)
             else Inl OverflowError)"
      using v k assms(4) by (rule relative_offset) (simp add: timedelta_def unit_duration_def us_per_day_def u)
    with assms(1) m u pi False show ?thesis by (simp add: parse_since_graph_def)
  next
    assume u: "u = CHR ''d''"
    have "(case timedelta 0 (decimal ds) 0 0 of Inl e \<Rightarrow> Inl e | Inr delta \<Rightarrow> datetime_sub now delta)
          = (if decimal ds * unit_duration u \<le> now then Inr (now - decimal ds * unit_duration u)
             else Inl OverflowError)"
      using v k assms(4) by (rule relative_offset) (simp add: timedelta_def unit_duration_def us_per_day_def u)
    with assms(1) m u pi False show ?thesis by (simp add: parse_since_graph_def)
  next
    assume u: "u = CHR ''h''"
    have "(case timedelta 0 0 (decimal ds) 0 of Inl e \<Rightarrow> Inl e | Inr delta \<Rightarrow> datetime_sub now delta)
          = (if decimal ds * unit_duration u \<le> now then Inr (now - decimal ds * unit_duration u)
             else Inl OverflowError)"
      using v k assms(4) by (rule relative_offset) (simp add: timedelta_def unit_duration_def us_per_day_def u)
    with assms(1) m u pi False show ?thesis by (simp add: parse_since_graph_def)
  qed
qed

text \<open>
  C3, as stated, fails: the list variant does not know the letter \<open>h\<close> and the graph
  variant knows neither \<open>H\<close> nor \<open>M\<close>, although all three are in the class
  \<open>[wdhHM]\<close> of the claim's pattern. On such a string the parser exits with the message
  \<open>'3h' is not a valid date\<close> instead of returning an instant.
\<close>

theorem parse_since_unit_letters_counterexample:
  "fromisoformat sample_python ''3h'' = None \<and>
   re_fullmatch ''wdhHM'' ''3h'' = Some (''3'', CHR ''h'') \<and>
   3 * unit_duration CHR ''h'' \<le> sample_clock \<and>
   parse_since_list sample_python sample_clock ''3h''
   = Inl (SystemExit (CHR 0x27 # ''3h'' @ CHR 0x27 # '' is not a valid date'')) \<and>
   re_fullmatch ''wdhHM'' ''3M'' = Some (''3'', CHR ''M'') \<and>
   parse_since_graph sample_python sample_clock ''3M''
   = Inl (SystemExit (CHR 0x27 # ''3M'' @ CHR 0x27 # '' is not a valid date''))"
  by (simp add: sample_python_def sample_clock_def us_per_day_def unit_duration_def
      re_fullmatch_def isdigit_def parse_since_list_def parse_since_graph_def
      not_a_valid_date_def)

text \<open>
  C3, amended. A string that \<open>fromisoformat\<close> accepts yields that instant. Otherwise,
  let the string be one or more digits followed by a unit letter of the variant (\<open>w\<close>,
  \<open>d\<close>, \<open>H\<close>, \<open>M\<close> in the list variant; \<open>w\<close>, \<open>d\<close>, \<open>h\<close> in the graph variant), and
  let the clock show a \<open>datetime\<close>. With more than 4300 digits the parser raises
  \<open>ValueError\<close>. With at most 4300 the result is the clock reading minus the value
  times the unit's duration if that instant is not before \<open>datetime.min\<close>, and
  \<open>OverflowError\<close> if it is.
\<close>

theorem parse_since_success:
  "(fromisoformat py s = Some t \<longrightarrow>
      parse_since_list py now s = Inr t \<and> parse_since_graph py now s = Inr t) \<and>
   (fromisoformat py (ds @ [u]) = None \<and> ds \<noteq> [] \<and> list_all isdigit ds \<and>
    now \<le> datetime_max \<longrightarrow>
      (u \<in> set ''wdHM'' \<longrightarrow>
         parse_since_list py now (ds @ [u])
         = (if 4300 < length ds then Inl ValueError
            else if decimal ds * unit_duration u \<le> now
            then Inr (now - decimal ds * unit_duration u)
            else Inl OverflowError)) \<and>
      (u \<in> set ''wdh'' \<longrightarrow>
         parse_since_graph py now (ds @ [u])
         = (if 4300 < length ds then Inl ValueError
            else if decimal ds * unit_duration u \<le> now
            then Inr (now - decimal ds * unit_duration u)
            else Inl OverflowError)))"
  using parse_since_list_relative [of py ds u now] parse_since_graph_relative [of py ds u now]
  by (simp add: parse_since_list_def parse_since_graph_def)

theorem parse_since_success_witness:
  "parse_since_list sample_python sample_clock ''0001-01-02'' = Inr us_per_day \<and>
   parse_since_graph sample_python sample_clock ''0001-01-02'' = Inr us_per_day \<and>
   parse_since_list sample_python sample_clock ''36H'' = Inr (9 * us_per_day) \<and>
   parse_since_graph sample_python sample_clock ''1w'' = Inr (3 * us_per_day + 43200000000) \<and>
   parse_since_graph sample_python sample_clock ''11d'' = Inl OverflowError \<and>
   parse_since_list sample_python sample_clock (replicate 4301 CHR ''0'' @ ''d'') = Inl ValueError"
proof -
  have iso: "fromisoformat sample_python ''0001-01-02'' = Some us_per_day"
    by (simp add: sample_python_def)
  have clock: "sample_clock \<le> datetime_max"
    by (simp add: sample_clock_def datetime_max_def us_per_day_def)
  have h: "fromisoformat sample_python (''36'' @ [CHR ''H'']) = None \<and> ''36'' \<noteq> [] \<and>
      list_all isdigit ''36'' \<and> CHR ''H'' \<in> set ''wdHM''"
    and w: "fromisoformat sample_python (''1'' @ [CHR ''w'']) = None \<and> ''1'' \<noteq> [] \<and>
      list_all isdigit ''1'' \<and> CHR ''w'' \<in> set ''wdh''"
    and d: "fromisoformat sample_python (''11'' @ [CHR ''d'']) = None \<and> ''11'' \<noteq> [] \<and>
      list_all isdigit ''11'' \<and> CHR ''d'' \<in> set ''wdh''"
    by (simp_all add: sample_python_def isdigit_def)
  have z: "fromisoformat sample_python (replicate 4301 CHR ''0'' @ [CHR ''d'']) = None"
    "replicate 4301 CHR ''0'' \<noteq> []" "list_all isdigit (replicate 4301 CHR ''0'')"
    "CHR ''d'' \<in> set ''wdHM''" "4300 < length (replicate 4301 CHR ''0'')"
    by (simp_all add: sample_python_def isdigit_def list_all_iff)
  have v: "decimal ''36'' * unit_duration CHR ''H'' \<le> sample_clock"
    "sample_clock - decimal ''36'' * unit_duration CHR ''H'' = 9 * us_per_day"
    "decimal ''1'' * unit_duration CHR ''w'' \<le> sample_clock"
    "sample_clock - decimal ''1'' * unit_duration CHR ''w'' = 3 * us_per_day + 43200000000"
    "\<not> decimal ''11'' * unit_duration CHR ''d'' \<le> sample_clock"
    by (simp_all add: sample_clock_def us_per_day_def decimal_def unit_duration_def)
  from parse_since_success [of sample_python "''0001-01-02''" us_per_day sample_clock "''36''" "CHR ''H''"]
    parse_since_success [of sample_python "''0001-01-02''" us_per_day sample_clock "''1''" "CHR ''w''"]
    parse_since_success [of sample_python "''0001-01-02''" us_per_day sample_clock "''11''" "CHR ''d''"]
    parse_since_success [of sample_python "''0001-01-02''" us_per_day sample_clock
      "replicate 4301 CHR ''0''" "CHR ''d''"]
    iso clock h w d z v
  show ?thesis by simp
qed

section \<open>Properties of paths and of the file system\<close>

lemma split_without_separator: "sep \<notin> set s \<Longrightarrow> split sep s = [s]"
  by (induction s) auto

lemma path_root_relative: "s \<noteq> [] \<Longrightarrow> CHR ''/'' \<notin> set s \<Longrightarrow> path_root s = []"
  by (cases s) (auto simp: path_root_def)

lemma Path_plain: "plain c \<Longrightarrow> Path c = \<lparr>root = [], parts = [c]\<rparr>"
  by (simp add: Path_def plain_def split_without_separator path_root_relative)

lemma div_path_plain: "plain c \<Longrightarrow> div_path p c = \<lparr>root = root p, parts = parts p @ [c]\<rparr>"
  by (simp add: div_path_def Path_plain)

lemma join_snoc: "join sep (xs @ [c]) = (if xs = [] then c else join sep xs @ sep @ c)"
  by (induction sep xs rule: join.induct) auto

lemma fspath_div_path:
  "plain c \<Longrightarrow>
   fspath (div_path p c) = (if parts p = [] then root p @ c else fspath p @ ''/'' @ c)"
  by (auto simp: div_path_plain fspath_def join_snoc plain_def)

lemma fs_length_append: "fs_length (a @ b) = fs_length a + fs_length b"
  by (simp add: fs_length_def)

lemma fspath_div_path_length:
  "plain c \<Longrightarrow> fs_length (fspath (div_path p c)) \<le> fs_length (fspath p) + 1 + fs_length c"
  by (auto simp: fspath_div_path fs_length_append) (auto simp: fspath_def fs_length_def)

lemma fspath_div_path_set:
  "plain c \<Longrightarrow> set (fspath (div_path p c)) \<subseteq> set (fspath p) \<union> {CHR ''/''} \<union> set c"
  by (auto simp: fspath_div_path) (auto simp: fspath_def)

lemma walk_append:
  "walk fsys here (xs @ ys)
   = (case walk fsys here xs of Inl e \<Rightarrow> Inl e | Inr place \<Rightarrow> walk fsys place ys)"
  by (induction fsys here xs rule: walk.induct) auto

lemma walk_more_dirs:
  "walk a here xs = Inr place \<Longrightarrow> dirs a \<subseteq> dirs b \<Longrightarrow> walk b here xs = Inr place"
  by (induction a here xs rule: walk.induct) (auto split: if_splits)

lemma walk_same:
  "dirs a = dirs b \<Longrightarrow> dom (files a) = dom (files b) \<Longrightarrow> walk b here xs = walk a here xs"
  by (induction a here xs rule: walk.induct) auto

lemma resolve_more_dirs:
  "resolve a p = Inr place \<Longrightarrow> cwd b = cwd a \<Longrightarrow> dirs a \<subseteq> dirs b \<Longrightarrow>
   resolve b p = Inr place"
  by (auto simp: resolve_def split: if_splits intro: walk_more_dirs)

lemma resolve_same:
  "cwd b = cwd a \<Longrightarrow> dirs a = dirs b \<Longrightarrow> dom (files a) = dom (files b) \<Longrightarrow>
   resolve b p = resolve a p"
  by (simp add: resolve_def walk_same [of a b])

text \<open>Where a plain name below a resolved directory leads.\<close>

lemma resolve_div_path_place:
  assumes "plain c" "resolve fsys p = Inr d" "resolve fsys (div_path p c) = Inr place"
  shows "place = d @ [c]"
proof -
  from assms(2) have w: "walk fsys (if root p = [] then cwd fsys else []) (parts p) = Inr d"
    by (auto simp: resolve_def split: if_splits)
  from assms(3) have "walk fsys (if root p = [] then cwd fsys else []) (parts p @ [c]) = Inr place"
    by (auto simp: resolve_def div_path_plain [OF assms(1)] split: if_splits)
  with w have "walk fsys d [c] = Inr place" by (simp add: walk_append)
  with assms(1) show ?thesis by (auto simp: plain_def split: if_splits)
qed

lemma resolve_div_path:
  assumes "plain c" "resolve fsys p = Inr d" "d \<in> dirs fsys" "fs_length c \<le> NAME_MAX"
    "fs_length (fspath p) + 1 + fs_length c < PATH_MAX"
  shows "resolve fsys (div_path p c) = Inr (d @ [c])"
proof -
  from assms(2) have w: "walk fsys (if root p = [] then cwd fsys else []) (parts p) = Inr d"
    and nul: "CHR 0x00 \<notin> set (fspath p)"
    by (auto simp: resolve_def split: if_splits)
  from nul assms(1) fspath_div_path_set [OF assms(1), of p]
  have "CHR 0x00 \<notin> set (fspath (div_path p c))" by (auto simp: plain_def)
  moreover from fspath_div_path_length [OF assms(1), of p] assms(5)
  have "\<not> PATH_MAX \<le> fs_length (fspath (div_path p c))" by simp
  moreover have "walk fsys (if root p = [] then cwd fsys else []) (parts p @ [c]) = Inr (d @ [c])"
    using w assms(1,3,4) by (simp add: walk_append plain_def)
  ultimately show ?thesis by (simp add: resolve_def div_path_plain [OF assms(1)])
qed

lemma mkdir_result:
  assumes "mkdir p fsys = Inr fsys'"
  shows "\<exists>place. resolve fsys p = Inr place \<and> fsys' = fsys\<lparr>dirs := insert place (dirs fsys)\<rparr>"
proof (cases "resolve fsys p")
  case (Inl e)
  with assms show ?thesis by (simp add: mkdir_def)
next
  case (Inr place)
  have "fsys' = fsys\<lparr>dirs := insert place (dirs fsys)\<rparr>"
  proof (cases "place \<in> dirs fsys")
    case True
    then have "insert place (dirs fsys) = dirs fsys" by auto
    moreover from True assms Inr have "fsys' = fsys" by (simp add: mkdir_def)
    ultimately show ?thesis by simp
  next
    case False
    with assms Inr show ?thesis by (simp add: mkdir_def split: if_splits)
  qed
  with Inr show ?thesis by simp
qed

lemma write_text_result:
  assumes "write_text p t fsys = Inr fsys'"
  shows "\<exists>place. resolve fsys p = Inr place \<and> fsys' = fsys\<lparr>files := (files fsys)(place \<mapsto> t)\<rparr>"
proof (cases "resolve fsys p")
  case (Inl e)
  with assms show ?thesis by (simp add: write_text_def)
next
  case (Inr place)
  with assms show ?thesis by (simp add: write_text_def split: if_splits)
qed

lemma mkdir_under_dir:
  assumes "resolve fsys p = Inr place" "butlast place \<in> dirs fsys" "place \<notin> dom (files fsys)"
  shows "mkdir p fsys = Inr (fsys\<lparr>dirs := insert place (dirs fsys)\<rparr>)"
proof (cases "place \<in> dirs fsys")
  case True
  then have "insert place (dirs fsys) = dirs fsys" by auto
  with True assms show ?thesis by (simp add: mkdir_def)
next
  case False
  with assms show ?thesis by (simp add: mkdir_def)
qed

lemma write_text_under_dir:
  assumes "resolve fsys p = Inr place" "butlast place \<in> dirs fsys" "place \<notin> dirs fsys"
  shows "write_text p t fsys = Inr (fsys\<lparr>files := (files fsys)(place \<mapsto> t)\<rparr>)"
  using assms by (simp add: write_text_def)

text \<open>The decimal form of an integer: digits after an optional sign.\<close>

lemma str_nat_digits: "set (str_nat n) \<subseteq> set ''0123456789''"
proof (induction n rule: str_nat.induct)
  case (1 n)
  have d: "''0123456789'' ! k \<in> set ''0123456789''" if "k < 10" for k
    using that by (intro nth_mem) simp
  show ?case
  proof (cases "n < 10")
    case True
    with d [of n] show ?thesis by (subst str_nat.simps) simp
  next
    case False
    with 1 d [of "n mod 10"] show ?thesis by (subst str_nat.simps) simp
  qed
qed

lemma str_nat_not_Nil: "str_nat n \<noteq> []"
  by (subst str_nat.simps) simp

lemma str_int_chars: "set (str_int i) \<subseteq> set ''-0123456789''"
proof -
  have "set (str_int i) \<subseteq> insert CHR ''-'' (set ''0123456789'')"
  proof (cases "i < 0")
    case True
    then have "set (str_int i) = insert CHR ''-'' (set (str_nat (nat (- i))))"
      by (simp add: str_int_def)
    with str_nat_digits [of "nat (- i)"] show ?thesis by blast
  next
    case False
    then have "set (str_int i) = set (str_nat (nat i))" by (simp add: str_int_def)
    with str_nat_digits [of "nat i"] show ?thesis by blast
  qed
  then show ?thesis by (simp only: list.set)
qed

lemma str_int_without:
  assumes "c \<notin> set ''-0123456789''"
  shows "c \<notin> set (str_int i)"
  using assms str_int_chars [of i] by blast

lemma fs_length_ascii: "\<forall>c \<in> set s. (of_char c :: nat) < 128 \<Longrightarrow> fs_length s = length s"
  by (induction s) (simp_all add: fs_length_def)

lemma fs_length_item_name: "fs_length (str_int i @ ''.json'') = length (str_int i) + 5"
proof -
  have "(of_char c :: nat) < 128" if "c \<in> set (str_int i)" for c
  proof -
    from that str_int_chars [of i] have "c \<in> set ''-0123456789''" by blast
    then show ?thesis by auto
  qed
  then have "fs_length (str_int i) = length (str_int i)" by (intro fs_length_ascii) blast
  moreover have "fs_length ''.json'' = 5" by (simp add: fs_length_def)
  ultimately show ?thesis by (simp add: fs_length_append)
qed

lemma str_int_not_Nil: "str_int i \<noteq> []"
  by (simp add: str_int_def str_nat_not_Nil)

lemma plain_item_name: "plain (str_int i @ ''.json'')"
proof -
  have "CHR ''/'' \<notin> set (str_int i)" "CHR 0x00 \<notin> set (str_int i)"
    by (rule str_int_without, simp)+
  moreover have "str_int i @ ''.json'' \<noteq> ''.''" "str_int i @ ''.json'' \<noteq> ''..''"
    by (auto simp: append_eq_Cons_conv)
  ultimately show ?thesis by (simp add: plain_def str_int_not_Nil)
qed

lemma format_int_short:
  assumes "length (str_int i) \<le> 4300"
  shows "format_int i = Inr (str_int i)"
proof -
  have "length (str_nat (nat \<bar>i\<bar>)) \<le> length (str_int i)"
    by (cases "i < 0") (simp_all add: str_int_def abs_if)
  with assms show ?thesis by (simp add: format_int_def int_max_str_digits_def)
qed

section \<open>The steps that write one item\<close>

lemma write_item_list_steps:
  "write_item_list py info dct fsys =
     (case is_pull_request dct of
        Inl e \<Rightarrow> (Inl e, fsys)
      | Inr pr \<Rightarrow> save_steps py (div_path (out_dir info) (if pr then ''pulls'' else ''issues'')) dct fsys)"
  by (simp add: write_item_list_def save_steps_def Let_def split: sum.splits)

lemma write_item_graph_steps:
  "write_item_graph py info edge fsys =
     (case getitem edge ''node'' of
        Inl e \<Rightarrow> (Inl e, fsys)
      | Inr node \<Rightarrow>
          (case setitem node FORMAT_KEY (JInt FORMAT) of
             Inl e \<Rightarrow> (Inl e, fsys)
           | Inr dct \<Rightarrow> save_steps py (div_path (out_dir info) ''issues'') dct fsys))"
  by (simp add: write_item_graph_def save_steps_def Let_def split: sum.splits)

lemma save_steps_effect:
  assumes dir: "resolve fsys item_dir = Inr place" "butlast place \<in> dirs fsys"
      "place \<notin> dom (files fsys)"
    and num: "getitem dct ''number'' = Inr (JInt i)" "length (str_int i) + 5 \<le> NAME_MAX"
    and ser: "json_dumps py dct 2 True = Inr t"
    and tit: "getitem dct ''title'' = Inr title"
    and len: "fs_length (fspath item_dir) + 1 + (length (str_int i) + 5) < PATH_MAX"
    and free: "place @ [str_int i @ ''.json''] \<notin> dirs fsys"
  shows "save_steps py item_dir dct fsys
         = (Inr (), fsys\<lparr>dirs := insert place (dirs fsys),
                          files := (files fsys)(place @ [str_int i @ ''.json''] \<mapsto> t)\<rparr>)"
proof -
  let ?name = "str_int i @ ''.json''"
  let ?fs1 = "fsys\<lparr>dirs := insert place (dirs fsys)\<rparr>"
  have mk: "mkdir item_dir fsys = Inr ?fs1"
    using dir by (rule mkdir_under_dir)
  have fmt: "format_value py (JInt i) = Inr (str_int i)"
    using num(2) by (simp add: format_value_def format_int_short NAME_MAX_def)
  have "resolve ?fs1 item_dir = Inr place"
    using dir(1) by (rule resolve_more_dirs) auto
  then have "resolve ?fs1 (div_path item_dir ?name) = Inr (place @ [?name])"
    using num(2) len by (intro resolve_div_path plain_item_name) (simp_all add: fs_length_item_name)
  moreover have "place @ [?name] \<notin> dirs ?fs1" using free by simp
  ultimately have wr: "write_text (div_path item_dir ?name) t ?fs1
      = Inr (?fs1\<lparr>files := (files ?fs1)(place @ [?name] \<mapsto> t)\<rparr>)"
    by (intro write_text_under_dir) simp_all
  show ?thesis
    by (simp add: save_steps_def mk num(1) fmt ser tit wr)
qed

section \<open>The item writer of the list variant\<close>

lemma is_itemE:
  assumes "is_item py dct"
  obtains kvs i title t where "dct = JObj kvs" "map_of kvs ''number'' = Some (JInt i)"
    "length (str_int i) + 5 \<le> NAME_MAX" "map_of kvs ''title'' = Some title"
    "json_dumps py dct 2 True = Inr t"
proof -
  from assms obtain kvs where d: "dct = JObj kvs"
    by (cases dct) (simp_all add: is_item_def)
  from assms d obtain n where n: "map_of kvs ''number'' = Some n"
    by (cases "map_of kvs ''number''") (simp_all add: is_item_def)
  from assms d n obtain i where i: "n = JInt i"
    by (cases n) (simp_all add: is_item_def)
  from assms d n i have fit: "length (str_int i) + 5 \<le> NAME_MAX"
    by (simp add: is_item_def)
  from assms d n i obtain title where title: "map_of kvs ''title'' = Some title"
    by (auto simp: is_item_def)
  from assms d n i obtain t where "json_dumps py dct 2 True = Inr t"
    by (cases "json_dumps py dct 2 True") (simp_all add: is_item_def)
  with d n i fit title that show ?thesis by blast
qed

lemma category_cases: "category dct = ''issues'' \<or> category dct = ''pulls''"
  by (simp add: category_def split: json.splits)

lemma plain_category: "plain (category dct)" "fs_length (category dct) \<le> 6"
  using category_cases [of dct] by (auto simp: plain_def fs_length_def)

lemma write_item_list_effect:
  assumes "is_item py dct" "resolve fsys (out_dir info) = Inr d" "d \<in> dirs fsys"
    "fs_length (fspath (out_dir info)) + 263 < PATH_MAX"
    "d @ [category dct] \<notin> dom (files fsys)"
    "d @ [category dct, item_file dct] \<notin> dirs fsys"
  shows "write_item_list py info dct fsys = (Inr (), written_list py d dct fsys)"
proof -
  from assms(1) obtain kvs i title t where
    d: "dct = JObj kvs" and n: "map_of kvs ''number'' = Some (JInt i)"
    and fit: "length (str_int i) + 5 \<le> NAME_MAX"
    and tit: "map_of kvs ''title'' = Some title" and t: "json_dumps py dct 2 True = Inr t"
    by (rule is_itemE)
  let ?dir = "div_path (out_dir info) (category dct)"
  have pr: "is_pull_request dct = Inr (''pull_request'' \<in> fst ` set kvs)"
    by (simp add: d is_pull_request_def)
  have cat: "(if ''pull_request'' \<in> fst ` set kvs then ''pulls'' else ''issues'') = category dct"
    by (simp add: d category_def)
  have num: "getitem dct ''number'' = Inr (JInt i)" and title: "getitem dct ''title'' = Inr title"
    by (simp_all add: d getitem_def n tit)
  have fl: "item_file dct = str_int i @ ''.json''" by (simp add: item_file_def num)
  have six: "fs_length (category dct) \<le> 6" by (rule plain_category)
  have dir: "resolve fsys ?dir = Inr (d @ [category dct])"
    using plain_category(1) assms(2,3) six assms(4)
    by (intro resolve_div_path) (simp_all add: NAME_MAX_def)
  have "fs_length (fspath ?dir) \<le> fs_length (fspath (out_dir info)) + 1 + fs_length (category dct)"
    using plain_category(1) by (rule fspath_div_path_length)
  with six assms(4) fit
  have len: "fs_length (fspath ?dir) + 1 + (length (str_int i) + 5) < PATH_MAX"
    by (simp add: NAME_MAX_def)
  have "save_steps py ?dir dct fsys
      = (Inr (), fsys\<lparr>dirs := insert (d @ [category dct]) (dirs fsys),
           files := (files fsys)((d @ [category dct]) @ [str_int i @ ''.json''] \<mapsto> t)\<rparr>)"
    using dir _ assms(5) num fit t title len
  proof (rule save_steps_effect)
    show "butlast (d @ [category dct]) \<in> dirs fsys" using assms(3) by simp
    show "(d @ [category dct]) @ [str_int i @ ''.json''] \<notin> dirs fsys"
      using assms(6) by (simp add: fl)
  qed
  then show ?thesis
    by (simp add: write_item_list_steps pr cat written_list_def fl serialized_def t)
qed

lemma written_list_keeps:
  "cwd (written_list py d dct fsys) = cwd fsys"
  "dirs fsys \<subseteq> dirs (written_list py d dct fsys)"
  "dirs (written_list py d dct fsys) = insert (d @ [category dct]) (dirs fsys)"
  "dom (files (written_list py d dct fsys)) = insert (d @ [category dct, item_file dct]) (dom (files fsys))"
  by (auto simp: written_list_def)

lemma for_each_write_item_list:
  assumes "\<forall>dct \<in> set lst. is_item py dct" "resolve fsys (out_dir info) = Inr d" "d \<in> dirs fsys"
    "fs_length (fspath (out_dir info)) + 263 < PATH_MAX"
    "d @ [''issues''] \<notin> dom (files fsys)" "d @ [''pulls''] \<notin> dom (files fsys)"
    "\<forall>dct \<in> set lst. d @ [category dct, item_file dct] \<notin> dirs fsys"
  shows "for_each (write_item_list py info) lst fsys
         = (Inr (), foldl (\<lambda>f dct. written_list py d dct f) fsys lst)"
  using assms
proof (induction lst arbitrary: fsys)
  case Nil
  then show ?case by simp
next
  case (Cons dct lst)
  from category_cases [of dct] Cons.prems
  have nf: "d @ [category dct] \<notin> dom (files fsys)" by auto
  have step: "write_item_list py info dct fsys = (Inr (), written_list py d dct fsys)"
    using Cons.prems nf by (intro write_item_list_effect) simp_all
  let ?f = "written_list py d dct fsys"
  have "for_each (write_item_list py info) lst ?f
        = (Inr (), foldl (\<lambda>f dct. written_list py d dct f) ?f lst)"
  proof (rule Cons.IH)
    show "\<forall>dct \<in> set lst. is_item py dct" using Cons.prems by simp
    show "resolve ?f (out_dir info) = Inr d"
      using Cons.prems(2) by (rule resolve_more_dirs) (auto simp: written_list_def)
    show "d \<in> dirs ?f" using Cons.prems by (simp add: written_list_keeps)
    show "fs_length (fspath (out_dir info)) + 263 < PATH_MAX" by fact
    show "d @ [''issues''] \<notin> dom (files ?f)"
      using Cons.prems by (simp add: written_list_keeps)
    show "d @ [''pulls''] \<notin> dom (files ?f)"
      using Cons.prems by (simp add: written_list_keeps)
    show "\<forall>x \<in> set lst. d @ [category x, item_file x] \<notin> dirs ?f"
      using Cons.prems by (simp add: written_list_keeps)
  qed
  with step show ?case by simp
qed

section \<open>One page of the list variant\<close>

lemma scrap_page_list_requests:
  "requests (snd (scrap_page_list py env info page w)) = requests w @ [page_request env info page]"
  by (simp add: scrap_page_list_def Let_def split: sum.splits json.splits prod.splits)

lemma scrap_page_list_empty:
  assumes "responses env (length (requests w)) = Inr (JArr [])"
  shows "scrap_page_list py env info page w
         = (Inr False, w\<lparr>requests := requests w @ [page_request env info page]\<rparr>)"
  using assms by (simp add: scrap_page_list_def)

lemma scrap_page_list_items:
  assumes "responses env (length (requests w)) = Inr (JArr lst)" "lst \<noteq> []"
    "for_each (write_item_list py info) lst (fs w) = (Inr (), fs')"
  shows "scrap_page_list py env info page w
         = (Inr (length lst = PAGE_SIZE),
            w\<lparr>requests := requests w @ [page_request env info page], fs := fs'\<rparr>)"
  using assms by (simp add: scrap_page_list_def)

text \<open>
  C6. The item writer of the list variant. Let a fetched page hold items: records with an
  integer number and a title, whose file name \<open>number.json\<close> fits the 255 bytes of a file
  name and whose serialisation exists. Let the output directory be a directory, at the
  place \<open>d\<close> of the file system, with a path that leaves room for the category and the
  file name below the 4096 bytes of a path, and let nothing of another kind be in the way
  (no regular file where a category directory goes, no directory where an item file
  goes). Then \<open>scrap_page\<close> raises nothing and leaves the file system that results from
  writing the items one after the other: each goes to \<open>pulls/number.json\<close> in the output
  directory if its record has the key \<open>pull_request\<close> and to \<open>issues/number.json\<close>
  otherwise, the category directory is added if absent, and the file's content becomes
  \<open>json.dumps(dct, indent=2, sort_keys=True)\<close> whatever the file held before.
\<close>

theorem list_item_writer:
  assumes "responses env (length (requests w)) = Inr (JArr lst)"
    and "\<forall>dct \<in> set lst. is_item py dct"
    and "resolve (fs w) (out_dir info) = Inr d" and "d \<in> dirs (fs w)"
    and "fs_length (fspath (out_dir info)) + 263 < PATH_MAX"
    and "d @ [''issues''] \<notin> dom (files (fs w))"
    and "d @ [''pulls''] \<notin> dom (files (fs w))"
    and "\<forall>dct \<in> set lst. d @ [category dct, item_file dct] \<notin> dirs (fs w)"
  shows "scrap_page_list py env info page w
         = (Inr (length lst = 100),
            w\<lparr>requests := requests w @ [page_request env info page],
              fs := foldl (\<lambda>f dct. written_list py d dct f) (fs w) lst\<rparr>)"
proof (cases "lst = []")
  case True
  with assms(1) show ?thesis by (simp add: scrap_page_list_empty)
next
  case False
  have "for_each (write_item_list py info) lst (fs w)
        = (Inr (), foldl (\<lambda>f dct. written_list py d dct f) (fs w) lst)"
    using assms(2-8) by (rule for_each_write_item_list)
  with assms(1) False show ?thesis by (simp add: scrap_page_list_items PAGE_SIZE_def)
qed

lemma sample_out_dir:
  "Path ''out'' = \<lparr>root = [], parts = [''out'']\<rparr>"
  "fspath \<lparr>root = [], parts = [''out'']\<rparr> = ''out''"
  "fs_length ''out'' = 3"
  by (simp_all add: Path_def path_root_def fspath_def fs_length_def)

lemma resolve_sample_out_dir:
  "cwd fsys = [''home'', ''me''] \<Longrightarrow>
   {[], [''home''], [''home'', ''me'']} \<subseteq> dirs fsys \<Longrightarrow>
   resolve fsys (Path ''out'') = Inr [''home'', ''me'', ''out'']"
  by (simp add: resolve_def sample_out_dir PATH_MAX_def NAME_MAX_def)

theorem list_item_writer_witness:
  "scrap_page_list sample_python (sample_env short_page) sample_info 1 sample_world
   = (Inr False,
      \<lparr>fs = \<lparr>cwd = [''home'', ''me''],
              dirs = {[''home'', ''me'', ''out'', ''pulls''], [], [''home''], [''home'', ''me''],
                      [''home'', ''me'', ''out''], [''home'', ''me'', ''out'', ''issues'']},
              files = [[''home'', ''me'', ''out'', ''pulls'', ''7.json''] \<mapsto> ''json of #7'',
                       [''home'', ''me'', ''out'', ''issues'', ''8.json''] \<mapsto> ''json of #8'']\<rparr>,
        requests = [\<lparr>url = ''https://api.github.com/repos/octo/demo/issues'',
                     header_accept = ''application/vnd.github+json'',
                     header_authorization = ''Bearer t0ken'',
                     param_state = ''all'', param_per_page = 100, param_page = 1,
                     param_since = None\<rparr>],
        clients = [], errlog = []\<rparr>)"
proof -
  let ?w = "sample_world :: rest_request world"
  have seven: "str_int 7 = ''7''" and eight: "str_int 8 = ''8''"
    by (simp_all add: str_int_def str_nat.simps)
  have "scrap_page_list sample_python (sample_env short_page) sample_info 1 ?w
        = (Inr (length [item7, item8] = 100),
           ?w\<lparr>requests := requests ?w @ [page_request (sample_env short_page) sample_info 1],
              fs := foldl (\<lambda>f dct. written_list sample_python [''home'', ''me'', ''out''] dct f)
                      (fs ?w) [item7, item8]\<rparr>)"
  proof (rule list_item_writer)
    show "responses (sample_env short_page) (length (requests ?w)) = Inr (JArr [item7, item8])"
      by (simp add: sample_env_def short_page_def sample_world_def)
    show "\<forall>dct \<in> set [item7, item8]. is_item sample_python dct"
      by (simp add: is_item_def item7_def item8_def sample_python_def seven eight NAME_MAX_def)
    show "resolve (fs ?w) (out_dir sample_info) = Inr [''home'', ''me'', ''out'']"
      by (simp add: sample_info_def sample_world_def sample_fs_def resolve_sample_out_dir)
    show "[''home'', ''me'', ''out''] \<in> dirs (fs ?w)"
      by (simp add: sample_world_def sample_fs_def)
    show "fs_length (fspath (out_dir sample_info)) + 263 < PATH_MAX"
      by (simp add: sample_info_def sample_out_dir PATH_MAX_def)
    show "[''home'', ''me'', ''out''] @ [''issues''] \<notin> dom (files (fs ?w))"
      "[''home'', ''me'', ''out''] @ [''pulls''] \<notin> dom (files (fs ?w))"
      by (simp_all add: sample_world_def sample_fs_def)
    show "\<forall>dct \<in> set [item7, item8].
        [''home'', ''me'', ''out''] @ [category dct, item_file dct] \<notin> dirs (fs ?w)"
      by (simp add: sample_world_def sample_fs_def)
  qed
  also have "\<dots> = (Inr False,
      \<lparr>fs = \<lparr>cwd = [''home'', ''me''],
              dirs = {[''home'', ''me'', ''out'', ''pulls''], [], [''home''], [''home'', ''me''],
                      [''home'', ''me'', ''out''], [''home'', ''me'', ''out'', ''issues'']},
              files = [[''home'', ''me'', ''out'', ''pulls'', ''7.json''] \<mapsto> ''json of #7'',
                       [''home'', ''me'', ''out'', ''issues'', ''8.json''] \<mapsto> ''json of #8'']\<rparr>,
        requests = [\<lparr>url = ''https://api.github.com/repos/octo/demo/issues'',
                     header_accept = ''application/vnd.github+json'',
                     header_authorization = ''Bearer t0ken'',
                     param_state = ''all'', param_per_page = 100, param_page = 1,
                     param_since = None\<rparr>],
        clients = [], errlog = []\<rparr>)"
    by (auto simp: sample_world_def sample_fs_def sample_info_def sample_env_def page_request_def
        PAGE_SIZE_def written_list_def item7_def item8_def category_def item_file_def
        serialized_def getitem_def sample_python_def seven eight)
  finally show ?thesis .
qed

section \<open>The loop of the list variant\<close>

lemma written_list_twice:
  "written_list py d dct (written_list py d dct fsys) = written_list py d dct fsys"
  by (simp add: written_list_def)

lemma foldl_written_list_replicate:
  "foldl (\<lambda>f dct. written_list py d dct f) fsys (replicate (Suc n) dct)
   = written_list py d dct fsys"
  by (induction n arbitrary: fsys) (simp_all add: written_list_twice)

text \<open>
  C1. The continuation rule of the list variant. Let a page fetch, for the page index
  \<open>page\<close>, return the array \<open>lst\<close>. If \<open>lst\<close> is empty, the loop ends and only the
  request for \<open>page\<close> has been added to the world: no file is touched. If \<open>lst\<close> is not
  empty and shorter than the page size 100, and writing its items goes through, the loop
  ends in the world where they are written. If \<open>lst\<close> has exactly 100 items, they are
  written and the loop goes on with the page index \<open>page + 1\<close>, whose fetch sends exactly
  one request, with that index as its \<open>page\<close> parameter and 100 as \<open>per_page\<close>.
\<close>

theorem list_continuation_rule:
  assumes "responses env (length (requests w)) = Inr (JArr lst)"
  shows "(lst = [] \<longrightarrow>
            scrap_from_page py env info page w
            = Some (Inr (), w\<lparr>requests := requests w @
                [\<lparr>url = ''https://api.github.com/repos/'' @ project info @ ''/issues'',
                  header_accept = ''application/vnd.github+json'',
                  header_authorization = ''Bearer '' @ GITHUB_TOKEN env,
                  param_state = ''all'', param_per_page = 100, param_page = page,
                  param_since = since info\<rparr>]\<rparr>)) \<and>
         (lst \<noteq> [] \<and> length lst < 100 \<and>
          for_each (write_item_list py info) lst (fs w) = (Inr (), fs') \<longrightarrow>
            scrap_from_page py env info page w
            = Some (Inr (), w\<lparr>requests := requests w @
                [\<lparr>url = ''https://api.github.com/repos/'' @ project info @ ''/issues'',
                  header_accept = ''application/vnd.github+json'',
                  header_authorization = ''Bearer '' @ GITHUB_TOKEN env,
                  param_state = ''all'', param_per_page = 100, param_page = page,
                  param_since = since info\<rparr>], fs := fs'\<rparr>)) \<and>
         (length lst = 100 \<and>
          for_each (write_item_list py info) lst (fs w) = (Inr (), fs') \<longrightarrow>
            scrap_from_page py env info page w
            = scrap_from_page py env info (page + 1)
                (w\<lparr>requests := requests w @
                   [\<lparr>url = ''https://api.github.com/repos/'' @ project info @ ''/issues'',
                     header_accept = ''application/vnd.github+json'',
                     header_authorization = ''Bearer '' @ GITHUB_TOKEN env,
                     param_state = ''all'', param_per_page = 100, param_page = page,
                     param_since = since info\<rparr>], fs := fs'\<rparr>) \<and>
            requests (snd (scrap_page_list py env info (page + 1)
                (w\<lparr>requests := requests w @
                   [\<lparr>url = ''https://api.github.com/repos/'' @ project info @ ''/issues'',
                     header_accept = ''application/vnd.github+json'',
                     header_authorization = ''Bearer '' @ GITHUB_TOKEN env,
                     param_state = ''all'', param_per_page = 100, param_page = page,
                     param_since = since info\<rparr>], fs := fs'\<rparr>)))
            = requests w @
                [\<lparr>url = ''https://api.github.com/repos/'' @ project info @ ''/issues'',
                  header_accept = ''application/vnd.github+json'',
                  header_authorization = ''Bearer '' @ GITHUB_TOKEN env,
                  param_state = ''all'', param_per_page = 100, param_page = page,
                  param_since = since info\<rparr>,
                 \<lparr>url = ''https://api.github.com/repos/'' @ project info @ ''/issues'',
                  header_accept = ''application/vnd.github+json'',
                  header_authorization = ''Bearer '' @ GITHUB_TOKEN env,
                  param_state = ''all'', param_per_page = 100, param_page = page + 1,
                  param_since = since info\<rparr>])"
proof -
  let ?rq = "\<lambda>p. \<lparr>url = ''https://api.github.com/repos/'' @ project info @ ''/issues'',
                  header_accept = ''application/vnd.github+json'',
                  header_authorization = ''Bearer '' @ GITHUB_TOKEN env,
                  param_state = ''all'', param_per_page = 100, param_page = p,
                  param_since = since info\<rparr>"
  have rq: "page_request env info p = ?rq p" for p
    by (simp add: page_request_def PAGE_SIZE_def)
  have one: "scrap_from_page py env info page w
      = Some (Inr (), w\<lparr>requests := requests w @ [?rq page]\<rparr>)" if "lst = []"
    using assms that by (subst scrap_from_page.simps) (simp add: scrap_page_list_empty rq)
  have two: "scrap_from_page py env info page w
      = Some (Inr (), w\<lparr>requests := requests w @ [?rq page], fs := fs'\<rparr>)"
    if a: "lst \<noteq> [] \<and> length lst < 100 \<and>
      for_each (write_item_list py info) lst (fs w) = (Inr (), fs')"
  proof -
    from a assms have "scrap_page_list py env info page w
        = (Inr False, w\<lparr>requests := requests w @ [?rq page], fs := fs'\<rparr>)"
      by (simp add: scrap_page_list_items rq PAGE_SIZE_def)
    then show ?thesis by (subst scrap_from_page.simps) simp
  qed
  have three: "scrap_from_page py env info page w
      = scrap_from_page py env info (page + 1)
          (w\<lparr>requests := requests w @ [?rq page], fs := fs'\<rparr>)"
    if a: "length lst = 100 \<and> for_each (write_item_list py info) lst (fs w) = (Inr (), fs')"
  proof -
    from a have "lst \<noteq> []" by auto
    with a assms have "scrap_page_list py env info page w
        = (Inr True, w\<lparr>requests := requests w @ [?rq page], fs := fs'\<rparr>)"
      by (simp add: scrap_page_list_items rq PAGE_SIZE_def)
    then show ?thesis by (subst scrap_from_page.simps) simp
  qed
  have four: "requests (snd (scrap_page_list py env info (page + 1)
          (w\<lparr>requests := requests w @ [?rq page], fs := fs'\<rparr>)))
        = requests w @ [?rq page, ?rq (page + 1)]"
    by (simp add: scrap_page_list_requests rq del: One_nat_def)
  from one two three four show ?thesis by blast
qed

text \<open>
  A first page of exactly 100 items is followed by a second request; the second page, of 99
  items, is followed by none.
\<close>

theorem list_continuation_rule_witness:
  "scrap_list sample_python (sample_env full_then_99) sample_info sample_world
   = Some (Inr (),
       \<lparr>fs = \<lparr>cwd = [''home'', ''me''],
               dirs = {[], [''home''], [''home'', ''me''], [''home'', ''me'', ''out''],
                       [''home'', ''me'', ''out'', ''issues'']},
               files = [[''home'', ''me'', ''out'', ''issues'', ''8.json''] \<mapsto> ''json of #8'']\<rparr>,
        requests = [\<lparr>url = ''https://api.github.com/repos/octo/demo/issues'',
                     header_accept = ''application/vnd.github+json'',
                     header_authorization = ''Bearer t0ken'',
                     param_state = ''all'', param_per_page = 100, param_page = 1,
                     param_since = None\<rparr>,
                    \<lparr>url = ''https://api.github.com/repos/octo/demo/issues'',
                     header_accept = ''application/vnd.github+json'',
                     header_authorization = ''Bearer t0ken'',
                     param_state = ''all'', param_per_page = 100, param_page = 2,
                     param_since = None\<rparr>],
        clients = [], errlog = []\<rparr>)"
proof -
  let ?env = "sample_env full_then_99"
  let ?d = "[''home'', ''me'', ''out'']"
  let ?fs1 = "written_list sample_python ?d item8 sample_fs"
  let ?rq = "\<lambda>p. \<lparr>url = ''https://api.github.com/repos/'' @ project sample_info @ ''/issues'',
                  header_accept = ''application/vnd.github+json'',
                  header_authorization = ''Bearer '' @ GITHUB_TOKEN ?env,
                  param_state = ''all'', param_per_page = 100, param_page = p,
                  param_since = since sample_info\<rparr>"
  let ?w1 = "(sample_world :: rest_request world)\<lparr>requests := requests (sample_world :: rest_request world) @ [?rq 1], fs := ?fs1\<rparr>"
  have eight: "str_int 8 = ''8''" by (simp add: str_int_def str_nat.simps)
  have fs1: "?fs1 = \<lparr>cwd = [''home'', ''me''],
               dirs = {[], [''home''], [''home'', ''me''], [''home'', ''me'', ''out''],
                       [''home'', ''me'', ''out'', ''issues'']},
               files = [[''home'', ''me'', ''out'', ''issues'', ''8.json''] \<mapsto> ''json of #8'']\<rparr>"
    by (auto simp: written_list_def sample_fs_def item8_def category_def item_file_def
        serialized_def getitem_def sample_python_def eight)
  have wr: "for_each (write_item_list sample_python sample_info) (replicate (Suc n) item8) fsys
      = (Inr (), written_list sample_python ?d item8 fsys)"
    if "fsys = sample_fs \<or> fsys = ?fs1" for n fsys
  proof -
    have "for_each (write_item_list sample_python sample_info) (replicate (Suc n) item8) fsys
      = (Inr (), foldl (\<lambda>f dct. written_list sample_python ?d dct f) fsys (replicate (Suc n) item8))"
    proof (rule for_each_write_item_list)
      show "\<forall>dct \<in> set (replicate (Suc n) item8). is_item sample_python dct"
        by (simp add: is_item_def item8_def sample_python_def eight NAME_MAX_def)
      show "resolve fsys (out_dir sample_info) = Inr ?d"
        using that by (auto simp: sample_info_def sample_fs_def written_list_def
            intro!: resolve_sample_out_dir)
      show "?d \<in> dirs fsys" using that by (auto simp: sample_fs_def written_list_def)
      show "fs_length (fspath (out_dir sample_info)) + 263 < PATH_MAX"
        by (simp add: sample_info_def sample_out_dir PATH_MAX_def)
      show "?d @ [''issues''] \<notin> dom (files fsys)" "?d @ [''pulls''] \<notin> dom (files fsys)"
        using that by (auto simp: sample_fs_def written_list_def)
      show "\<forall>dct \<in> set (replicate (Suc n) item8). ?d @ [category dct, item_file dct] \<notin> dirs fsys"
        using that by (auto simp: sample_fs_def written_list_def item8_def category_def)
    qed
    then show ?thesis by (simp only: foldl_written_list_replicate)
  qed
  have r0: "responses ?env (length (requests (sample_world :: rest_request world)))
      = Inr (JArr (replicate 100 item8))"
    by (simp add: sample_env_def full_then_99_def sample_world_def)
  have w0: "for_each (write_item_list sample_python sample_info) (replicate 100 item8)
      (fs (sample_world :: rest_request world)) = (Inr (), ?fs1)"
    using wr [of sample_fs 99] by (simp add: sample_world_def)
  have first: "scrap_from_page sample_python ?env sample_info 1 sample_world
      = scrap_from_page sample_python ?env sample_info (1 + 1) ?w1"
    using list_continuation_rule [OF r0, where py = sample_python and info = sample_info and fs' = ?fs1 and page = 1] w0
    by simp
  have r1: "responses ?env (length (requests ?w1)) = Inr (JArr (replicate 99 item8))"
    by (simp add: sample_env_def full_then_99_def sample_world_def)
  have w1: "for_each (write_item_list sample_python sample_info) (replicate 99 item8) (fs ?w1)
      = (Inr (), ?fs1)"
    using wr [of ?fs1 98] by (simp add: written_list_twice)
  have second: "scrap_from_page sample_python ?env sample_info (1 + 1) ?w1
      = Some (Inr (), ?w1\<lparr>requests := requests ?w1 @ [?rq (1 + 1)], fs := ?fs1\<rparr>)"
    using list_continuation_rule [OF r1, where py = sample_python and info = sample_info and fs' = ?fs1 and page = "1 + 1"] w1
    by simp
  have "scrap_list sample_python ?env sample_info sample_world
      = scrap_from_page sample_python ?env sample_info 1 sample_world"
    by (simp add: scrap_list_def)
  also note first
  also note second
  also have "Some (Inr (), ?w1\<lparr>requests := requests ?w1 @ [?rq (1 + 1)], fs := ?fs1\<rparr>)
      = Some (Inr (),
       \<lparr>fs = \<lparr>cwd = [''home'', ''me''],
               dirs = {[], [''home''], [''home'', ''me''], [''home'', ''me'', ''out''],
                       [''home'', ''me'', ''out'', ''issues'']},
               files = [[''home'', ''me'', ''out'', ''issues'', ''8.json''] \<mapsto> ''json of #8'']\<rparr>,
        requests = [\<lparr>url = ''https://api.github.com/repos/octo/demo/issues'',
                     header_accept = ''application/vnd.github+json'',
                     header_authorization = ''Bearer t0ken'',
                     param_state = ''all'', param_per_page = 100, param_page = 1,
                     param_since = None\<rparr>,
                    \<lparr>url = ''https://api.github.com/repos/octo/demo/issues'',
                     header_accept = ''application/vnd.github+json'',
                     header_authorization = ''Bearer t0ken'',
                     param_state = ''all'', param_per_page = 100, param_page = 2,
                     param_since = None\<rparr>],
        clients = [], errlog = []\<rparr>)"
    unfolding fs1 by (simp add: sample_world_def sample_info_def sample_env_def)
  finally show ?thesis .
qed

section \<open>The item writer of the graph variant\<close>

lemma map_of_update_item:
  "map_of (update_item k v kvs) k' = (if k' = k then Some v else map_of kvs k')"
  by (induction kvs) auto

lemma setitem_result:
  assumes "setitem node k v = Inr dct"
  obtains kvs where "node = JObj kvs" "dct = JObj (update_item k v kvs)"
  using assms by (auto simp: setitem_def split: json.splits)

lemma plain_issues: "plain ''issues''" "fs_length ''issues'' = 6"
  by (simp_all add: plain_def fs_length_def)

lemma write_item_graph_effect:
  assumes "getitem edge ''node'' = Inr (JObj kvs)"
    and "map_of kvs ''number'' = Some (JInt i)" and "length (str_int i) + 5 \<le> NAME_MAX"
    and "map_of kvs ''title'' = Some title"
    and "json_dumps py (JObj (update_item ''_format'' (JInt 2) kvs)) 2 True = Inr t"
    and "resolve fsys (out_dir info) = Inr d" and "d \<in> dirs fsys"
    and "fs_length (fspath (out_dir info)) + 263 < PATH_MAX"
    and "d @ [''issues''] \<notin> dom (files fsys)"
    and "d @ [''issues'', str_int i @ ''.json''] \<notin> dirs fsys"
  shows "write_item_graph py info edge fsys
         = (Inr (),
            fsys\<lparr>dirs := insert (d @ [''issues'']) (dirs fsys),
                 files := (files fsys)(d @ [''issues'', str_int i @ ''.json''] \<mapsto> t)\<rparr>)"
proof -
  let ?dct = "JObj (update_item ''_format'' (JInt 2) kvs)"
  let ?dir = "div_path (out_dir info) ''issues''"
  have st: "setitem (JObj kvs) FORMAT_KEY (JInt FORMAT) = Inr ?dct"
    by (simp add: setitem_def FORMAT_KEY_def FORMAT_def)
  have num: "getitem ?dct ''number'' = Inr (JInt i)" and tit: "getitem ?dct ''title'' = Inr title"
    using assms(2,4) by (simp_all add: getitem_def map_of_update_item)
  have dir: "resolve fsys ?dir = Inr (d @ [''issues''])"
    using plain_issues(1) assms(6,7) _ _
    by (rule resolve_div_path) (use assms(8) in \<open>simp_all add: plain_issues NAME_MAX_def\<close>)
  have "fs_length (fspath ?dir) \<le> fs_length (fspath (out_dir info)) + 1 + fs_length ''issues''"
    using plain_issues(1) by (rule fspath_div_path_length)
  with assms(3,8)
  have len: "fs_length (fspath ?dir) + 1 + (length (str_int i) + 5) < PATH_MAX"
    by (simp add: NAME_MAX_def plain_issues)
  have "save_steps py ?dir ?dct fsys
      = (Inr (), fsys\<lparr>dirs := insert (d @ [''issues'']) (dirs fsys),
           files := (files fsys)((d @ [''issues'']) @ [str_int i @ ''.json''] \<mapsto> t)\<rparr>)"
    using dir _ assms(9) num assms(3,5) tit len
  proof (rule save_steps_effect)
    show "butlast (d @ [''issues'']) \<in> dirs fsys" using assms(7) by simp
    show "(d @ [''issues'']) @ [str_int i @ ''.json''] \<notin> dirs fsys"
      using assms(10) by simp
  qed
  then show ?thesis
    by (simp add: write_item_graph_steps assms(1) st)
qed

text \<open>A run of the graph variant over the sample data: one page with one node.\<close>

lemma write_node5:
  assumes "cwd fsys = [''home'', ''me'']"
    "{[], [''home''], [''home'', ''me''], [''home'', ''me'', ''out'']} \<subseteq> dirs fsys"
    "[''home'', ''me'', ''out'', ''issues''] \<notin> dom (files fsys)"
    "[''home'', ''me'', ''out'', ''issues'', ''5.json''] \<notin> dirs fsys"
  shows "write_item_graph sample_python \<lparr>project = prj, out_dir = Path ''out'', since = sn\<rparr>
           (JObj [(''node'', node5)]) fsys
         = (Inr (),
            fsys\<lparr>dirs := insert [''home'', ''me'', ''out'', ''issues''] (dirs fsys),
                 files := (files fsys)([''home'', ''me'', ''out'', ''issues'', ''5.json'']
                            \<mapsto> ''json of #5'')\<rparr>)"
proof -
  have five: "str_int 5 = ''5''" by (simp add: str_int_def str_nat.simps)
  have "write_item_graph sample_python \<lparr>project = prj, out_dir = Path ''out'', since = sn\<rparr>
           (JObj [(''node'', node5)]) fsys
         = (Inr (),
            fsys\<lparr>dirs := insert ([''home'', ''me'', ''out''] @ [''issues'']) (dirs fsys),
                 files := (files fsys)([''home'', ''me'', ''out''] @ [''issues'', str_int 5 @ ''.json'']
                            \<mapsto> ''json of #5'')\<rparr>)"
  proof (rule write_item_graph_effect)
    show "getitem (JObj [(''node'', node5)]) ''node''
        = Inr (JObj [(''number'', JInt 5), (''title'', JStr ''Typo'')])"
      by (simp add: getitem_def node5_def)
    show "map_of [(''number'', JInt 5), (''title'', JStr ''Typo'')] ''number'' = Some (JInt 5)"
      "map_of [(''number'', JInt 5), (''title'', JStr ''Typo'')] ''title'' = Some (JStr ''Typo'')"
      by simp_all
    show "length (str_int 5) + 5 \<le> NAME_MAX" by (simp add: five NAME_MAX_def)
    show "json_dumps sample_python
        (JObj (update_item ''_format'' (JInt 2) [(''number'', JInt 5), (''title'', JStr ''Typo'')])) 2 True
        = Inr ''json of #5''"
      by (simp add: sample_python_def getitem_def five)
    show "resolve fsys (out_dir \<lparr>project = prj, out_dir = Path ''out'', since = sn\<rparr>)
        = Inr [''home'', ''me'', ''out'']"
      using assms(1,2) by (simp add: resolve_sample_out_dir)
    show "[''home'', ''me'', ''out''] \<in> dirs fsys" using assms(2) by simp
    show "fs_length (fspath (out_dir \<lparr>project = prj, out_dir = Path ''out'', since = sn\<rparr>)) + 263
        < PATH_MAX"
      by (simp add: sample_out_dir PATH_MAX_def)
    show "[''home'', ''me'', ''out''] @ [''issues''] \<notin> dom (files fsys)"
      using assms(3) by simp
    show "[''home'', ''me'', ''out''] @ [''issues'', str_int 5 @ ''.json''] \<notin> dirs fsys"
      using assms(4) by (simp add: five)
  qed
  then show ?thesis by (simp add: five)
qed

lemma sample_path_is_dir: "path_is_dir (Path ''out'') sample_fs = Inr True"
  by (simp add: path_is_dir_def sample_fs_def resolve_sample_out_dir)

lemma sample_is_dir: "is_dir (Path ''out'') sample_fs"
  by (simp add: is_dir_def sample_path_is_dir)

lemma is_dirD: "is_dir p fsys \<Longrightarrow> path_is_dir p fsys = Inr True"
  by (simp add: is_dir_def)

lemma main_graph_last_page:
  assumes "sn = None \<or> sn = Some []"
  shows "main_graph sample_python (sample_env last_page) (sample_args\<lparr>arg_since := sn\<rparr>) sample_world
   = Some (Inr 0,
       \<lparr>fs = \<lparr>cwd = [''home'', ''me''],
               dirs = {[], [''home''], [''home'', ''me''], [''home'', ''me'', ''out''],
                       [''home'', ''me'', ''out'', ''issues'']},
               files = [[''home'', ''me'', ''out'', ''issues'', ''8.json''] \<mapsto> ''old'',
                        [''home'', ''me'', ''out'', ''issues'', ''5.json''] \<mapsto> ''json of #5'']\<rparr>,
        requests = [\<lparr>sent_by = sample_client, var_owner = ''octo'', var_name = ''demo'',
                     var_since = None, var_issues_after = JNull\<rparr>],
        clients = [sample_client], errlog = []\<rparr>)"
proof -
  have wr: "write_item_graph sample_python
       \<lparr>project = ''octo/demo'', out_dir = Path ''out'', since = None\<rparr>
       (JObj [(''node'', node5)]) sample_fs
     = (Inr (),
        sample_fs\<lparr>dirs := insert [''home'', ''me'', ''out'', ''issues''] (dirs sample_fs),
                  files := (files sample_fs)([''home'', ''me'', ''out'', ''issues'', ''5.json'']
                             \<mapsto> ''json of #5'')\<rparr>)"
    by (rule write_node5) (simp_all add: sample_fs_def)
  from assms show ?thesis
    by (auto simp: main_graph_def sample_env_def sample_args_def sample_world_def
        sample_path_is_dir create_client_def since_of_args_def scrap_graph_def
        scrap_from_cursor.simps scrap_page_graph_def cursor_request_def Let_def last_page_def
        graph_result_def handle_result_def getitem_def iterate_def wr truthy_def
        sample_client_def)
      (auto simp: sample_fs_def)
qed

section \<open>Start-up\<close>

lemma split_not_Nil: "split sep s \<noteq> []"
  by (induction s) (auto split: list.splits)

lemma length_split: "length (split sep s) = Suc (count_list s sep)"
proof (induction s)
  case Nil
  then show ?case by simp
next
  case (Cons c cs)
  obtain part parts where "split sep cs = part # parts"
    using split_not_Nil [of sep cs] by (cases "split sep cs") auto
  with Cons show ?case by auto
qed

lemma scrap_page_graph_unsplit:
  assumes "count_list (project info) CHR ''/'' \<noteq> 1"
  shows "scrap_page_graph py env cl info cursor w = (Inl ValueError, w)"
proof -
  have "length (split CHR ''/'' (project info)) \<noteq> 2"
    using assms by (simp add: length_split)
  then show ?thesis
    by (auto simp: scrap_page_graph_def split: list.splits)
qed

lemma scrap_from_page_requests:
  assumes "scrap_from_page py env info page w = Some y"
  shows "\<exists>rest. requests (snd y) = requests w @ page_request env info page # rest"
  using assms
proof (induction py env info page w y rule: scrap_from_page.raw_induct)
  case (1 loop py env info page w y)
  obtain r1 w1 where pg: "scrap_page_list py env info page w = (r1, w1)"
    by (cases "scrap_page_list py env info page w")
  have rq: "requests w1 = requests w @ [page_request env info page]"
    using scrap_page_list_requests [of py env info page w] pg by simp
  show ?case
  proof (cases r1)
    case (Inl e)
    with 1(2) pg rq show ?thesis by auto
  next
    case (Inr again)
    show ?thesis
    proof (cases again)
      case False
      with 1(2) pg rq Inr show ?thesis by auto
    next
      case True
      with 1(2) pg Inr have approx: "loop py env info (Suc page) w1 = Some y" by simp
      from 1(3) pg Inr True have "scrap_from_page py env info (Suc page) w1 = Some y"
        by (subst (asm) scrap_from_page.simps) simp
      with approx have "\<exists>rest. requests (snd y) = requests w1 @ page_request env info (Suc page) # rest"
        by (rule 1(1))
      with rq show ?thesis by auto
    qed
  qed
qed (fact assms)

lemma main_list_requests:
  assumes "is_dir (Path (arg_out_dir args)) (fs w)" "GITHUB_TOKEN env \<noteq> []"
    and "since_of_args (parse_since_list py (clock env)) (arg_since args) = Inr sn"
    and "main_list py env args w = Some (r, w')"
  shows "\<exists>rest. requests w' = requests w @
           page_request env \<lparr>project = arg_project args, out_dir = Path (arg_out_dir args), since = sn\<rparr> 1 # rest"
proof -
  let ?info = "\<lparr>project = arg_project args, out_dir = Path (arg_out_dir args), since = sn\<rparr>"
  from assms obtain y where y: "scrap_from_page py env ?info 1 w = Some y" and w': "w' = snd y"
    by (auto simp: main_list_def is_dir_def Let_def scrap_list_def split: option.splits sum.splits prod.splits)
  from scrap_from_page_requests [OF y] w' show ?thesis by simp
qed

lemma main_graph_unsplit:
  assumes "count_list (arg_project args) CHR ''/'' \<noteq> 1"
    and "is_dir (Path (arg_out_dir args)) (fs w)" "GITHUB_TOKEN env \<noteq> []"
    and "create_client env (GITHUB_TOKEN env) = Inr c"
    and "since_of_args (parse_since_graph py (clock env)) (arg_since args) = Inr sn"
  shows "main_graph py env args w = Some (Inl ValueError, w\<lparr>clients := clients w @ [c]\<rparr>)"
proof -
  let ?info = "\<lparr>project = arg_project args, out_dir = Path (arg_out_dir args), since = sn\<rparr>"
  have "scrap_page_graph py env c ?info JNull (w\<lparr>clients := clients w @ [c]\<rparr>)
      = (Inl ValueError, w\<lparr>clients := clients w @ [c]\<rparr>)"
    using assms(1) by (intro scrap_page_graph_unsplit) simp
  then have "scrap_graph py env c ?info (w\<lparr>clients := clients w @ [c]\<rparr>)
      = Some (Inl ValueError, w\<lparr>clients := clients w @ [c]\<rparr>)"
    unfolding scrap_graph_def by (subst scrap_from_cursor.simps) simp
  with assms(2-5) show ?thesis by (simp add: main_graph_def is_dir_def Let_def)
qed

text \<open>
  C10. No variant checks the shape of the project at start-up. In the graph variant a
  project that does not contain exactly one \<open>/\<close> makes \<open>scrap_page\<close> raise
  \<open>ValueError\<close>, the failed unpacking of the split, and leave the world as it found it:
  no request, no file. When the start-up checks pass, that is how the run ends: the
  client has been constructed, nothing has been sent or written, and the process dies of
  the exception, not of a \<open>sys.exit\<close> with a message. In the list variant a run whose
  start-up checks pass sends its first request for whatever project it was given.
\<close>

theorem project_not_validated:
  "(count_list (project info) CHR ''/'' \<noteq> 1 \<longrightarrow>
      scrap_page_graph py env cl info cursor wg = (Inl ValueError, wg)) \<and>
   (count_list (arg_project args) CHR ''/'' \<noteq> 1 \<and>
    is_dir (Path (arg_out_dir args)) (fs wg) \<and> GITHUB_TOKEN env \<noteq> [] \<and>
    create_client env (GITHUB_TOKEN env) = Inr c \<and>
    since_of_args (parse_since_graph py (clock env)) (arg_since args) = Inr sn \<longrightarrow>
      main_graph py env args wg = Some (Inl ValueError, wg\<lparr>clients := clients wg @ [c]\<rparr>)) \<and>
   (is_dir (Path (arg_out_dir args)) (fs w) \<and> GITHUB_TOKEN env \<noteq> [] \<and>
    since_of_args (parse_since_list py (clock env)) (arg_since args) = Inr sn' \<and>
    main_list py env args w = Some (r, w') \<longrightarrow>
      (\<exists>rest. requests w' = requests w @
         page_request env
           \<lparr>project = arg_project args, out_dir = Path (arg_out_dir args), since = sn'\<rparr> 1 # rest))"
  using scrap_page_graph_unsplit [of info py env cl cursor wg]
    main_graph_unsplit [of args wg env c py sn]
    main_list_requests [of args w env py sn' r w']
  by blast

theorem project_not_validated_witness:
  "main_graph sample_python (sample_env no_items) unsplit_args sample_world
   = Some (Inl ValueError,
       \<lparr>fs = sample_fs, requests = [], clients = [sample_client], errlog = []\<rparr>) \<and>
   scrap_page_graph sample_python (sample_env no_items) sample_client
     \<lparr>project = ''octodemo'', out_dir = Path ''out'', since = None\<rparr> JNull sample_world
   = (Inl ValueError, sample_world) \<and>
   (\<exists>rest. requests (snd (the (main_list sample_python (sample_env no_items) unsplit_args sample_world)))
      = page_request (sample_env no_items)
          \<lparr>project = ''octodemo'', out_dir = Path ''out'', since = None\<rparr> 1 # rest)"
proof -
  let ?env = "sample_env no_items"
  let ?info = "\<lparr>project = ''octodemo'', out_dir = Path ''out'', since = None\<rparr>"
  let ?wg = "sample_world :: gql_request world"
  let ?w = "sample_world :: rest_request world"
  have bad: "count_list (arg_project unsplit_args) CHR ''/'' \<noteq> 1"
    "count_list (project ?info) CHR ''/'' \<noteq> 1"
    by (simp_all add: unsplit_args_def)
  have start: "is_dir (Path (arg_out_dir unsplit_args)) (fs ?wg)"
    "is_dir (Path (arg_out_dir unsplit_args)) (fs ?w)" "GITHUB_TOKEN ?env \<noteq> []"
    "create_client ?env (GITHUB_TOKEN ?env) = Inr sample_client"
    "since_of_args (parse_since_graph sample_python (clock ?env)) (arg_since unsplit_args) = Inr None"
    "since_of_args (parse_since_list sample_python (clock ?env)) (arg_since unsplit_args) = Inr None"
    by (simp_all add: sample_is_dir unsplit_args_def sample_world_def
        sample_env_def create_client_def sample_client_def since_of_args_def)
  have run: "main_list sample_python ?env unsplit_args ?w
      = Some (Inr 0, snd (the (main_list sample_python ?env unsplit_args ?w)))"
    by (simp add: main_list_def unsplit_args_def sample_env_def sample_world_def
        sample_path_is_dir since_of_args_def scrap_list_def scrap_from_page.simps
        scrap_page_list_def no_items_def Let_def)
  from project_not_validated [where info = ?info and py = sample_python and env = ?env
      and cl = sample_client and cursor = JNull and wg = ?wg and args = unsplit_args
      and c = sample_client and sn = None and w = ?w and sn' = None and r = "Inr 0"
      and w' = "snd (the (main_list sample_python ?env unsplit_args ?w))"]
    bad start run
  show ?thesis
    by (simp add: sample_world_def unsplit_args_def)
qed




lemma main_list_invalid_since:
  assumes "s \<noteq> []" "arg_since args = Some s" "fromisoformat py s = None"
    "GITHUB_TOKEN env \<noteq> []" "re_fullmatch ''wdHM'' s = None"
    "is_dir (Path (arg_out_dir args)) (fs w)"
  shows "main_list py env args w = Some (Inl (SystemExit (not_a_valid_date s)), w)"
  using assms by (simp add: main_list_def is_dir_def Let_def since_of_args_def parse_since_list_def)

lemma main_graph_invalid_since:
  assumes "s \<noteq> []" "arg_since args = Some s" "fromisoformat py s = None"
    "GITHUB_TOKEN env \<noteq> []" "re_fullmatch ''wdh'' s = None"
    "is_dir (Path (arg_out_dir args)) (fs w)" "create_client env (GITHUB_TOKEN env) = Inr c"
  shows "main_graph py env args w
         = Some (Inl (SystemExit (not_a_valid_date s)), w\<lparr>clients := clients w @ [c]\<rparr>)"
  using assms by (simp add: main_graph_def is_dir_def Let_def since_of_args_def parse_since_graph_def)

text \<open>
  C5, as stated, fails for the empty string: it is neither a timestamp nor a relative
  offset, but \<open>if args.since:\<close> takes it for an absent option, and the run scrapes
  without a filter.
\<close>

theorem empty_since_counterexample:
  "fromisoformat sample_python [] = None \<and>
   re_fullmatch ''wdHM'' [] = None \<and> re_fullmatch ''wdh'' [] = None \<and>
   main_list sample_python (sample_env no_items) (sample_args\<lparr>arg_since := Some []\<rparr>) sample_world
   = Some (Inr 0,
       \<lparr>fs = sample_fs,
        requests = [\<lparr>url = ''https://api.github.com/repos/octo/demo/issues'',
                     header_accept = ''application/vnd.github+json'',
                     header_authorization = ''Bearer t0ken'',
                     param_state = ''all'', param_per_page = 100, param_page = 1,
                     param_since = None\<rparr>],
        clients = [], errlog = []\<rparr>) \<and>
   main_graph sample_python (sample_env last_page) (sample_args\<lparr>arg_since := Some []\<rparr>) sample_world
   = Some (Inr 0,
       \<lparr>fs = \<lparr>cwd = [''home'', ''me''],
               dirs = {[], [''home''], [''home'', ''me''], [''home'', ''me'', ''out''],
                       [''home'', ''me'', ''out'', ''issues'']},
               files = [[''home'', ''me'', ''out'', ''issues'', ''8.json''] \<mapsto> ''old'',
                        [''home'', ''me'', ''out'', ''issues'', ''5.json''] \<mapsto> ''json of #5'']\<rparr>,
        requests = [\<lparr>sent_by = sample_client, var_owner = ''octo'', var_name = ''demo'',
                     var_since = None, var_issues_after = JNull\<rparr>],
        clients = [sample_client], errlog = []\<rparr>)"
proof (intro conjI)
  show "fromisoformat sample_python [] = None" by (simp add: sample_python_def)
  show "re_fullmatch ''wdHM'' [] = None" "re_fullmatch ''wdh'' [] = None"
    by (simp_all add: re_fullmatch_def)
  show "main_list sample_python (sample_env no_items) (sample_args\<lparr>arg_since := Some []\<rparr>) sample_world
     = Some (Inr 0,
       \<lparr>fs = sample_fs,
        requests = [\<lparr>url = ''https://api.github.com/repos/octo/demo/issues'',
                     header_accept = ''application/vnd.github+json'',
                     header_authorization = ''Bearer t0ken'',
                     param_state = ''all'', param_per_page = 100, param_page = 1,
                     param_since = None\<rparr>],
        clients = [], errlog = []\<rparr>)"
    by (simp add: main_list_def sample_args_def sample_env_def sample_world_def
        sample_path_is_dir since_of_args_def scrap_list_def scrap_from_page.simps
        scrap_page_list_def no_items_def Let_def page_request_def PAGE_SIZE_def)
  show "main_graph sample_python (sample_env last_page) (sample_args\<lparr>arg_since := Some []\<rparr>) sample_world
     = Some (Inr 0,
       \<lparr>fs = \<lparr>cwd = [''home'', ''me''],
               dirs = {[], [''home''], [''home'', ''me''], [''home'', ''me'', ''out''],
                       [''home'', ''me'', ''out'', ''issues'']},
               files = [[''home'', ''me'', ''out'', ''issues'', ''8.json''] \<mapsto> ''old'',
                        [''home'', ''me'', ''out'', ''issues'', ''5.json''] \<mapsto> ''json of #5'']\<rparr>,
        requests = [\<lparr>sent_by = sample_client, var_owner = ''octo'', var_name = ''demo'',
                     var_since = None, var_issues_after = JNull\<rparr>],
        clients = [sample_client], errlog = []\<rparr>)"
    by (rule main_graph_last_page) simp
qed

text \<open>
  C5, amended. Let the \<open>--since\<close> string be non-empty, let \<open>fromisoformat\<close> refuse it
  and let it not match the variant's pattern. When the checks that come before the parse
  pass (the token is set and the output directory exists; in the graph variant the
  client, too, has been constructed), the run ends through \<open>sys.exit\<close> with the message
  \<open>'<string>' is not a valid date\<close>, so with status 1, before any request is sent and
  with the file system untouched.
\<close>

theorem invalid_since_aborts:
  "s \<noteq> [] \<and> arg_since args = Some s \<and> fromisoformat py s = None \<and>
   GITHUB_TOKEN env \<noteq> [] \<longrightarrow>
     exit_status (Inl (SystemExit (not_a_valid_date s))) \<noteq> 0 \<and>
     (re_fullmatch ''wdHM'' s = None \<and> is_dir (Path (arg_out_dir args)) (fs w) \<longrightarrow>
        main_list py env args w = Some (Inl (SystemExit (not_a_valid_date s)), w)) \<and>
     (re_fullmatch ''wdh'' s = None \<and> is_dir (Path (arg_out_dir args)) (fs wg) \<and>
      create_client env (GITHUB_TOKEN env) = Inr c \<longrightarrow>
        main_graph py env args wg
        = Some (Inl (SystemExit (not_a_valid_date s)), wg\<lparr>clients := clients wg @ [c]\<rparr>))"
  using main_list_invalid_since [of s args py env w]
    main_graph_invalid_since [of s args py env wg c]
  by (simp add: exit_status_def)

theorem invalid_since_aborts_witness:
  "main_list sample_python (sample_env no_items) (sample_args\<lparr>arg_since := Some ''3 days''\<rparr>)
     sample_world
   = Some (Inl (SystemExit (CHR 0x27 # ''3 days'' @ CHR 0x27 # '' is not a valid date'')),
       sample_world) \<and>
   main_graph sample_python (sample_env no_items) (sample_args\<lparr>arg_since := Some ''3 days''\<rparr>)
     sample_world
   = Some (Inl (SystemExit (CHR 0x27 # ''3 days'' @ CHR 0x27 # '' is not a valid date'')),
       sample_world\<lparr>clients := [sample_client]\<rparr>)"
proof -
  let ?args = "sample_args\<lparr>arg_since := Some ''3 days''\<rparr>"
  let ?env = "sample_env no_items"
  have "''3 days'' \<noteq> [] \<and> arg_since ?args = Some ''3 days'' \<and>
      fromisoformat sample_python ''3 days'' = None \<and> GITHUB_TOKEN ?env \<noteq> []"
    and "re_fullmatch ''wdHM'' ''3 days'' = None" "re_fullmatch ''wdh'' ''3 days'' = None"
    and "is_dir (Path (arg_out_dir ?args)) (fs (sample_world :: rest_request world))"
    and "is_dir (Path (arg_out_dir ?args)) (fs (sample_world :: gql_request world))"
    and "create_client ?env (GITHUB_TOKEN ?env) = Inr sample_client"
    by (simp_all add: sample_python_def sample_env_def re_fullmatch_def isdigit_def
        sample_is_dir sample_args_def sample_world_def create_client_def sample_client_def)
  with invalid_since_aborts [where s = "''3 days''" and args = ?args and py = sample_python
      and env = ?env and w = sample_world and wg = sample_world and c = sample_client]
  show ?thesis by (simp add: sample_world_def not_a_valid_date_def)
qed

section \<open>One page and the loop of the graph variant\<close>

lemma scrap_page_graph_requests:
  assumes "split CHR ''/'' (project info) = [owner, name]"
  shows "requests (snd (scrap_page_graph py env cl info cursor w))
         = requests w @ [cursor_request cl info owner name cursor]"
  using assms by (simp add: scrap_page_graph_def Let_def split: sum.splits prod.splits)

lemma scrap_page_graph_result:
  assumes "split CHR ''/'' (project info) = [owner, name]"
    and "responses env (length (requests w)) = Inr result"
    and "handle_result py info result (fs w) = (r, fs')"
  shows "scrap_page_graph py env cl info cursor w
         = (r, w\<lparr>requests := requests w @ [cursor_request cl info owner name cursor], fs := fs'\<rparr>)"
  using assms by (simp add: scrap_page_graph_def Let_def)

lemma graph_continuation_steps:
  assumes "split CHR ''/'' (project info) = [owner, name]"
    and "responses env (length (requests w)) = Inr result"
    and "getitem result ''repository'' = Inr repo"
    and "getitem repo ''issues'' = Inr issues"
    and "getitem issues ''edges'' = Inr edges"
    and "getitem issues ''pageInfo'' = Inr page_info"
    and "iterate edges = Inr edge_list"
    and "for_each (write_item_graph py info) edge_list (fs w) = (Inr (), fs')"
    and "getitem page_info ''hasNextPage'' = Inr has_next"
  shows "(\<not> truthy has_next \<longrightarrow>
            scrap_from_cursor py env cl info cursor w
            = Some (Inr (), w\<lparr>requests := requests w @ [cursor_request cl info owner name cursor],
                              fs := fs'\<rparr>)) \<and>
         (truthy has_next \<and> getitem page_info ''endCursor'' = Inr end_cursor \<and>
          end_cursor \<noteq> JNull \<longrightarrow>
            scrap_from_cursor py env cl info cursor w
            = scrap_from_cursor py env cl info end_cursor
                (w\<lparr>requests := requests w @ [cursor_request cl info owner name cursor], fs := fs'\<rparr>) \<and>
            requests (snd (scrap_page_graph py env cl info end_cursor
                (w\<lparr>requests := requests w @ [cursor_request cl info owner name cursor], fs := fs'\<rparr>)))
            = requests w @ [cursor_request cl info owner name cursor,
                            cursor_request cl info owner name end_cursor]) \<and>
         (truthy has_next \<and> getitem page_info ''endCursor'' = Inr JNull \<longrightarrow>
            scrap_from_cursor py env cl info cursor w
            = Some (Inr (), w\<lparr>requests := requests w @ [cursor_request cl info owner name cursor],
                              fs := fs'\<rparr>)) \<and>
         scrap_graph py env cl info w = scrap_from_cursor py env cl info JNull w"
proof (intro conjI impI)
  let ?w' = "w\<lparr>requests := requests w @ [cursor_request cl info owner name cursor], fs := fs'\<rparr>"
  have page: "scrap_page_graph py env cl info cursor w = (r, ?w')"
    if "handle_result py info result (fs w) = (r, fs')" for r
    using assms(1,2) that by (rule scrap_page_graph_result)
  {
    assume "\<not> truthy has_next"
    then have "handle_result py info result (fs w) = (Inr JNull, fs')"
      using assms(3-9) by (simp add: handle_result_def)
    then have "scrap_page_graph py env cl info cursor w = (Inr JNull, ?w')" by (rule page)
    then show "scrap_from_cursor py env cl info cursor w = Some (Inr (), ?w')"
      by (subst scrap_from_cursor.simps) simp
  }
  {
    assume a: "truthy has_next \<and> getitem page_info ''endCursor'' = Inr end_cursor \<and>
      end_cursor \<noteq> JNull"
    then have "handle_result py info result (fs w) = (Inr end_cursor, fs')"
      using assms(3-9) by (simp add: handle_result_def)
    then have "scrap_page_graph py env cl info cursor w = (Inr end_cursor, ?w')" by (rule page)
    with a show "scrap_from_cursor py env cl info cursor w
        = scrap_from_cursor py env cl info end_cursor ?w'"
      by (subst scrap_from_cursor.simps) simp
    show "requests (snd (scrap_page_graph py env cl info end_cursor ?w'))
        = requests w @ [cursor_request cl info owner name cursor,
                        cursor_request cl info owner name end_cursor]"
      using assms(1) by (simp add: scrap_page_graph_requests)
  }
  {
    assume "truthy has_next \<and> getitem page_info ''endCursor'' = Inr JNull"
    then have "handle_result py info result (fs w) = (Inr JNull, fs')"
      using assms(3-9) by (simp add: handle_result_def)
    then have "scrap_page_graph py env cl info cursor w = (Inr JNull, ?w')" by (rule page)
    then show "scrap_from_cursor py env cl info cursor w = Some (Inr (), ?w')"
      by (subst scrap_from_cursor.simps) simp
  }
  show "scrap_graph py env cl info w = scrap_from_cursor py env cl info JNull w"
    by (simp add: scrap_graph_def)
qed

text \<open>
  C2. The continuation rule of the graph variant. Let a page fetch return a result with
  edges and page information, and let writing the items of its edges go through. The
  world that the loop goes on from, or ends in, is the one in which they are written. If
  \<open>hasNextPage\<close> is false, the loop ends there, and \<open>endCursor\<close> plays no part: nothing
  is assumed of it. If \<open>hasNextPage\<close> is true, \<open>endCursor\<close> is what \<open>scrap_page\<close>
  returns: the loop goes on with it as the cursor, and the next fetch sends exactly one
  request, whose variable \<open>issuesAfter\<close> it is; only a null \<open>endCursor\<close> is the absent cursor and ends
  the loop as well. \<open>scrap\<close> enters the loop with the absent cursor.
\<close>

theorem graph_continuation_rule:
  assumes "split CHR ''/'' (project info) = [owner, name]"
    and "responses env (length (requests w)) = Inr result"
    and "getitem result ''repository'' = Inr repo"
    and "getitem repo ''issues'' = Inr issues"
    and "getitem issues ''edges'' = Inr edges"
    and "getitem issues ''pageInfo'' = Inr page_info"
    and "iterate edges = Inr edge_list"
    and "for_each (write_item_graph py info) edge_list (fs w) = (Inr (), fs')"
    and "getitem page_info ''hasNextPage'' = Inr has_next"
  shows "(\<not> truthy has_next \<longrightarrow>
            scrap_from_cursor py env cl info cursor w
            = Some (Inr (), w\<lparr>requests := requests w @ [\<lparr>sent_by = cl, var_owner = owner, var_name = name, var_since = since info,
                 var_issues_after = cursor\<rparr>],
                              fs := fs'\<rparr>)) \<and>
         (truthy has_next \<and> getitem page_info ''endCursor'' = Inr end_cursor \<and>
          end_cursor \<noteq> JNull \<longrightarrow>
            scrap_from_cursor py env cl info cursor w
            = scrap_from_cursor py env cl info end_cursor
                (w\<lparr>requests := requests w @ [\<lparr>sent_by = cl, var_owner = owner, var_name = name, var_since = since info,
                 var_issues_after = cursor\<rparr>], fs := fs'\<rparr>) \<and>
            requests (snd (scrap_page_graph py env cl info end_cursor
                (w\<lparr>requests := requests w @ [\<lparr>sent_by = cl, var_owner = owner, var_name = name, var_since = since info,
                 var_issues_after = cursor\<rparr>], fs := fs'\<rparr>)))
            = requests w @ [\<lparr>sent_by = cl, var_owner = owner, var_name = name, var_since = since info,
                 var_issues_after = cursor\<rparr>,
                            \<lparr>sent_by = cl, var_owner = owner, var_name = name, var_since = since info,
                 var_issues_after = end_cursor\<rparr>]) \<and>
         (truthy has_next \<and> getitem page_info ''endCursor'' = Inr JNull \<longrightarrow>
            scrap_from_cursor py env cl info cursor w
            = Some (Inr (), w\<lparr>requests := requests w @ [\<lparr>sent_by = cl, var_owner = owner, var_name = name, var_since = since info,
                 var_issues_after = cursor\<rparr>],
                              fs := fs'\<rparr>)) \<and>
         scrap_graph py env cl info w = scrap_from_cursor py env cl info JNull w"
  using graph_continuation_steps [OF assms, of cl cursor end_cursor]
  by (simp add: cursor_request_def)

text \<open>
  A first page with \<open>hasNextPage\<close> true is followed by a request with its \<open>endCursor\<close>;
  the second page, with \<open>hasNextPage\<close> false, is followed by none.
\<close>

theorem graph_continuation_rule_witness:
  "scrap_graph sample_python (sample_env two_cursor_pages) sample_client sample_info sample_world
   = Some (Inr (),
       \<lparr>fs = \<lparr>cwd = [''home'', ''me''],
               dirs = {[], [''home''], [''home'', ''me''], [''home'', ''me'', ''out''],
                       [''home'', ''me'', ''out'', ''issues'']},
               files = [[''home'', ''me'', ''out'', ''issues'', ''8.json''] \<mapsto> ''old'',
                        [''home'', ''me'', ''out'', ''issues'', ''5.json''] \<mapsto> ''json of #5'']\<rparr>,
        requests = [\<lparr>sent_by = sample_client, var_owner = ''octo'', var_name = ''demo'',
                     var_since = None, var_issues_after = JNull\<rparr>,
                    \<lparr>sent_by = sample_client, var_owner = ''octo'', var_name = ''demo'',
                     var_since = None, var_issues_after = JStr ''Y3Vyc29y''\<rparr>],
        clients = [], errlog = []\<rparr>)"
proof -
  let ?env = "sample_env two_cursor_pages"
  let ?w0 = "sample_world :: gql_request world"
  let ?fs1 = "\<lparr>cwd = [''home'', ''me''],
               dirs = {[], [''home''], [''home'', ''me''], [''home'', ''me'', ''out''],
                       [''home'', ''me'', ''out'', ''issues'']},
               files = [[''home'', ''me'', ''out'', ''issues'', ''8.json''] \<mapsto> ''old'',
                        [''home'', ''me'', ''out'', ''issues'', ''5.json''] \<mapsto> ''json of #5'']\<rparr>"
  let ?q0 = "\<lparr>sent_by = sample_client, var_owner = ''octo'', var_name = ''demo'',
               var_since = since sample_info, var_issues_after = JNull\<rparr>"
  let ?q1 = "\<lparr>sent_by = sample_client, var_owner = ''octo'', var_name = ''demo'',
               var_since = since sample_info, var_issues_after = JStr ''Y3Vyc29y''\<rparr>"
  let ?w1 = "?w0\<lparr>requests := requests ?w0 @ [?q0], fs := ?fs1\<rparr>"
  let ?info0 = "JObj [(''endCursor'', JStr ''Y3Vyc29y''), (''hasNextPage'', JBool True)]"
  let ?edges0 = "JArr [JObj [(''node'', node5)]]"
  let ?issues0 = "JObj [(''pageInfo'', ?info0), (''edges'', ?edges0)]"
  let ?repo0 = "JObj [(''issues'', ?issues0)]"
  let ?info1 = "JObj [(''endCursor'', JNull), (''hasNextPage'', JBool False)]"
  let ?issues1 = "JObj [(''pageInfo'', ?info1), (''edges'', JArr [])]"
  let ?repo1 = "JObj [(''issues'', ?issues1)]"
  have sp: "split CHR ''/'' (project sample_info) = [''octo'', ''demo'']"
    by (simp add: sample_info_def)
  have r0: "responses ?env (length (requests ?w0)) = Inr (JObj [(''repository'', ?repo0)])"
    by (simp add: sample_env_def two_cursor_pages_def sample_world_def graph_result_def)
  have wr0: "for_each (write_item_graph sample_python sample_info) [JObj [(''node'', node5)]] (fs ?w0)
      = (Inr (), ?fs1)"
    using write_node5 [of sample_fs "''octo/demo''" None]
    by (auto simp: sample_world_def sample_fs_def sample_info_def)
  have first: "scrap_from_cursor sample_python ?env sample_client sample_info JNull ?w0
      = scrap_from_cursor sample_python ?env sample_client sample_info (JStr ''Y3Vyc29y'') ?w1"
    using graph_continuation_rule [OF sp r0, where repo = ?repo0 and issues = ?issues0
        and edges = ?edges0 and page_info = ?info0 and edge_list = "[JObj [(''node'', node5)]]"
        and py = sample_python and fs' = ?fs1 and has_next = "JBool True"
        and end_cursor = "JStr ''Y3Vyc29y''" and cl = sample_client and cursor = JNull]
      wr0
    by (simp add: getitem_def iterate_def truthy_def)
  have r1: "responses ?env (length (requests ?w1)) = Inr (JObj [(''repository'', ?repo1)])"
    by (simp add: sample_env_def two_cursor_pages_def sample_world_def graph_result_def)
  have wr1: "for_each (write_item_graph sample_python sample_info) [] (fs ?w1) = (Inr (), ?fs1)"
    by simp
  have second: "scrap_from_cursor sample_python ?env sample_client sample_info (JStr ''Y3Vyc29y'') ?w1
      = Some (Inr (), ?w1\<lparr>requests := requests ?w1 @ [?q1], fs := ?fs1\<rparr>)"
    using graph_continuation_rule [OF sp r1, where repo = ?repo1 and issues = ?issues1
        and edges = "JArr []" and page_info = ?info1 and edge_list = "[]"
        and py = sample_python and fs' = ?fs1 and has_next = "JBool False"
        and cl = sample_client and cursor = "JStr ''Y3Vyc29y''"]
      wr1
    by (simp add: getitem_def iterate_def truthy_def)
  have "scrap_graph sample_python ?env sample_client sample_info ?w0
      = scrap_from_cursor sample_python ?env sample_client sample_info JNull ?w0"
    by (simp add: scrap_graph_def)
  also note first
  also note second
  finally show ?thesis by (simp add: sample_world_def sample_info_def)
qed

section \<open>Running again over the files of a first run\<close>

lemma grows_refl: "grows a a"
  by (simp add: grows_def)

lemma grows_trans: "grows a b \<Longrightarrow> grows b c \<Longrightarrow> grows a c"
  unfolding grows_def by (elim conjE, intro conjI) (simp, blast, blast, blast)

lemma grows_mkdir:
  assumes "mkdir p a = Inr t"
  shows "grows a t"
proof (cases "resolve a p")
  case (Inl e)
  with assms show ?thesis by (simp add: mkdir_def)
next
  case (Inr place)
  show ?thesis
  proof (cases "place \<in> dirs a")
    case True
    with assms Inr show ?thesis by (simp add: mkdir_def grows_refl)
  next
    case False
    with assms Inr have "place \<notin> dom (files a)" and "t = a\<lparr>dirs := insert place (dirs a)\<rparr>"
      by (auto simp: mkdir_def split: if_splits)
    then show ?thesis by (auto simp: grows_def)
  qed
qed

lemma grows_write_text:
  assumes "write_text p x a = Inr t"
  shows "grows a t"
  using write_text_result [OF assms] by (auto simp: grows_def)

lemma replays_same: "replays F F F"
  by (simp add: replays_def)

lemma replays_final:
  assumes "replays F F b"
  shows "b = F"
proof -
  from assms have "dirs b = dirs F" and "files b = files F" and "cwd b = cwd F"
    by (auto simp: replays_def)
  then show ?thesis by simp
qed

lemma replays_start: "grows a F \<Longrightarrow> replays F a F"
  by (simp add: replays_def grows_def)

lemma resolve_replays:
  assumes "resolve a p = Inr place" "grows a F" "replays F a b"
  shows "resolve b p = Inr place"
  using assms(1)
proof (rule resolve_more_dirs)
  show "cwd b = cwd a" using assms(3) by (simp add: replays_def)
  show "dirs a \<subseteq> dirs b" using assms(2,3) by (simp add: replays_def grows_def)
qed

lemma growsD:
  assumes "grows a b"
  shows "cwd b = cwd a" "dirs a \<subseteq> dirs b" "dom (files a) \<subseteq> dom (files b)"
    "\<And>p. p \<in> dom (files a) \<Longrightarrow> p \<notin> dirs a \<Longrightarrow> p \<notin> dirs b"
  using assms unfolding grows_def by blast+

lemma replaysD:
  assumes "replays F a b"
  shows "cwd b = cwd a" "dirs b = dirs F" "\<And>p. files b p = files a p \<or> files b p = files F p"
  using assms unfolding replays_def by blast+

lemma replaysI:
  assumes "cwd b = cwd a" "dirs b = dirs F" "\<And>p. files b p = files a p \<or> files b p = files F p"
  shows "replays F a b"
  using assms unfolding replays_def by blast

lemma mkdir_replays:
  assumes "mkdir p a = Inr t" "grows t F" "replays F a b"
  shows "mkdir p b = Inr b" "replays F t b"
proof -
  from mkdir_result [OF assms(1)] obtain place where
    place: "resolve a p = Inr place" and t: "t = a\<lparr>dirs := insert place (dirs a)\<rparr>"
    by (elim exE conjE)
  from assms(1) have "grows a t" by (rule grows_mkdir)
  then have "grows a F" using assms(2) by (rule grows_trans)
  with place have rb: "resolve b p = Inr place" using assms(3) by (rule resolve_replays)
  have "place \<in> dirs t" by (simp add: t)
  with growsD(2) [OF assms(2)] have "place \<in> dirs F" by blast
  then have "place \<in> dirs b" by (simp add: replaysD(2) [OF assms(3)])
  with rb show "mkdir p b = Inr b" by (simp add: mkdir_def)
  show "replays F t b"
  proof (rule replaysI)
    show "cwd b = cwd t" by (simp add: t replaysD(1) [OF assms(3)])
    show "dirs b = dirs F" by (rule replaysD(2) [OF assms(3)])
    show "files b q = files t q \<or> files b q = files F q" for q
      using replaysD(3) [OF assms(3), of q] by (simp add: t)
  qed
qed

lemma write_text_replays:
  assumes "write_text p x a = Inr t" "grows t F" "replays F a b"
  shows "\<exists>t'. write_text p x b = Inr t' \<and> replays F t t'"
proof -
  from write_text_result [OF assms(1)] obtain place where
    place: "resolve a p = Inr place" and t: "t = a\<lparr>files := (files a)(place \<mapsto> x)\<rparr>"
    by (elim exE conjE)
  from assms(1) place have a: "place \<notin> dirs a" "butlast place \<in> dirs a"
    by (auto simp: write_text_def split: if_splits)
  from assms(1) have "grows a t" by (rule grows_write_text)
  then have "grows a F" using assms(2) by (rule grows_trans)
  with place have rb: "resolve b p = Inr place" using assms(3) by (rule resolve_replays)
  have "butlast place \<in> dirs t" "place \<in> dom (files t)" "place \<notin> dirs t"
    using a by (simp_all add: t)
  with growsD(2,4) [OF assms(2)] have "butlast place \<in> dirs F" "place \<notin> dirs F"
    by blast+
  then have "butlast place \<in> dirs b" "place \<notin> dirs b"
    by (simp_all add: replaysD(2) [OF assms(3)])
  with rb have "write_text p x b = Inr (b\<lparr>files := (files b)(place \<mapsto> x)\<rparr>)"
    by (simp add: write_text_def)
  moreover have "replays F t (b\<lparr>files := (files b)(place \<mapsto> x)\<rparr>)"
  proof (rule replaysI)
    show "cwd (b\<lparr>files := (files b)(place \<mapsto> x)\<rparr>) = cwd t"
      by (simp add: t replaysD(1) [OF assms(3)])
    show "dirs (b\<lparr>files := (files b)(place \<mapsto> x)\<rparr>) = dirs F"
      by (simp add: replaysD(2) [OF assms(3)])
    show "files (b\<lparr>files := (files b)(place \<mapsto> x)\<rparr>) q = files t q \<or>
        files (b\<lparr>files := (files b)(place \<mapsto> x)\<rparr>) q = files F q" for q
      using replaysD(3) [OF assms(3), of q] by (simp add: t)
  qed
  ultimately show ?thesis by simp
qed

lemma replayableI:
  assumes "\<And>a r t. f a = (r, t) \<Longrightarrow> grows a t"
    and "\<And>a r t F b. f a = (r, t) \<Longrightarrow> grows t F \<Longrightarrow> (\<And>e. r = Inl e \<Longrightarrow> F = t) \<Longrightarrow>
           replays F a b \<Longrightarrow> \<exists>t'. f b = (r, t') \<and> replays F t t'"
  shows "replayable f"
  unfolding replayable_def using assms by blast

lemma replayable_grows: "replayable f \<Longrightarrow> f a = (r, t) \<Longrightarrow> grows a t"
  unfolding replayable_def by blast

lemma replayable_replays:
  assumes "replayable f" "f a = (r, t)" "grows t F" "\<And>e. r = Inl e \<Longrightarrow> F = t" "replays F a b"
  shows "\<exists>t'. f b = (r, t') \<and> replays F t t'"
  using assms unfolding replayable_def by blast

text \<open>
  The steps that write one item, with what lies between \<open>mkdir\<close> and \<open>write_text\<close> taken
  together: it fails, or it yields the path and the text to write.
\<close>

lemma save_steps_target:
  "save_steps py item_dir dct fsys =
     (case mkdir item_dir fsys of
        Inl e \<Rightarrow> (Inl e, fsys)
      | Inr fs1 \<Rightarrow>
          (case (case getitem dct ''number'' of Inl e \<Rightarrow> Inl e | Inr item_id \<Rightarrow>
                 case format_value py item_id of Inl e \<Rightarrow> Inl e | Inr formatted \<Rightarrow>
                 case json_dumps py dct 2 True of Inl e \<Rightarrow> Inl e | Inr text' \<Rightarrow>
                 case getitem dct ''title'' of Inl e \<Rightarrow> Inl e | Inr title \<Rightarrow>
                   Inr (div_path item_dir (formatted @ ''.json''), text')) of
             Inl e \<Rightarrow> (Inl e, fs1)
           | Inr (pth, x) \<Rightarrow>
               (case write_text pth x fs1 of
                  Inl e \<Rightarrow> (Inl e, fs1)
                | Inr fs2 \<Rightarrow> (Inr (), fs2))))"
  by (simp add: save_steps_def split: sum.splits)

lemma mkdir_then_write_grows:
  assumes "(case mkdir d a of
        Inl e \<Rightarrow> (Inl e, a)
      | Inr fs1 \<Rightarrow>
          (case target of
             Inl e \<Rightarrow> (Inl e, fs1)
           | Inr (pth, x) \<Rightarrow>
               (case write_text pth x fs1 of
                  Inl e \<Rightarrow> (Inl e, fs1)
                | Inr fs2 \<Rightarrow> (Inr (), fs2)))) = (r, t)"
  shows "grows a t"
  using assms
  by (auto simp: grows_refl split: sum.splits prod.splits
      dest: grows_mkdir grows_write_text intro: grows_trans)

lemma mkdir_then_write_replays:
  fixes target :: "py_error + pure_path \<times> string"
  defines "steps \<equiv> \<lambda>d fsys. (case mkdir d fsys of
        Inl e \<Rightarrow> (Inl e, fsys)
      | Inr fs1 \<Rightarrow>
          (case target of
             Inl e \<Rightarrow> (Inl e, fs1)
           | Inr (pth, x) \<Rightarrow>
               (case write_text pth x fs1 of
                  Inl e \<Rightarrow> (Inl e, fs1)
                | Inr fs2 \<Rightarrow> (Inr (), fs2))))"
  assumes run: "steps d a = (r, t)"
    and F: "grows t F" and err: "\<And>e. r = Inl e \<Longrightarrow> F = t" and rel: "replays F a b"
  shows "\<exists>t'. steps d b = (r, t') \<and> replays F t t'"
proof (cases "mkdir d a")
  case (Inl e)
  with run have r: "r = Inl e" and t: "t = a" by (simp_all add: steps_def)
  from err [OF r] t rel have "b = a" by (simp add: replays_final)
  with run t r err show ?thesis by (auto simp: replays_same)
next
  case mk: (Inr fs1)
  show ?thesis
  proof (cases target)
    case (Inl e)
    with run mk have r: "r = Inl e" and t: "t = fs1" by (simp_all add: steps_def)
    from mk F rel t have "mkdir d b = Inr b" "replays F fs1 b"
      by (auto dest: mkdir_replays)
    with Inl r t show ?thesis by (simp add: steps_def)
  next
    case (Inr px)
    obtain pth x where px: "px = (pth, x)" by (cases px)
    show ?thesis
    proof (cases "write_text pth x fs1")
      case (Inl e)
      with run mk Inr px have r: "r = Inl e" and t: "t = fs1"
        by (simp_all add: steps_def)
      from mk F rel t have b: "mkdir d b = Inr b" "replays F fs1 b"
        by (auto dest: mkdir_replays)
      from err [OF r] t b(2) have "b = fs1" by (simp add: replays_final)
      with b Inl Inr px r t show ?thesis by (simp add: steps_def)
    next
      case wr: (Inr fs2)
      with run mk Inr px have r: "r = Inr ()" and t: "t = fs2"
        by (simp_all add: steps_def)
      from wr have "grows fs1 fs2" by (rule grows_write_text)
      with F t have "grows fs1 F" by (auto intro: grows_trans)
      with mk rel have b: "mkdir d b = Inr b" "replays F fs1 b"
        by (auto dest: mkdir_replays)
      from wr F t b(2) obtain t' where "write_text pth x b = Inr t'" "replays F fs2 t'"
        by (auto dest: write_text_replays)
      with b Inr px r t show ?thesis by (simp add: steps_def)
    qed
  qed
qed

lemma replayable_save_steps: "replayable (save_steps py item_dir dct)"
proof (rule replayableI)
  fix a r t
  assume run: "save_steps py item_dir dct a = (r, t)"
  then show "grows a t"
    unfolding save_steps_target by (rule mkdir_then_write_grows)
  fix F b
  assume "grows t F" and "\<And>e. r = Inl e \<Longrightarrow> F = t" and "replays F a b"
  with run show "\<exists>t'. save_steps py item_dir dct b = (r, t') \<and> replays F t t'"
    unfolding save_steps_target by (rule mkdir_then_write_replays)
qed

lemma replayable_for_each:
  assumes body: "\<And>x. replayable (body x)"
  shows "replayable (for_each body xs)"
proof (induction xs)
  case Nil
  show ?case by (rule replayableI) (auto simp: grows_refl)
next
  case (Cons x xs)
  show ?case
  proof (rule replayableI)
    fix a r t
    assume run: "for_each body (x # xs) a = (r, t)"
    obtain r1 a1 where b1: "body x a = (r1, a1)" by (cases "body x a")
    from body b1 have g1: "grows a a1" by (rule replayable_grows)
    show "grows a t"
    proof (cases r1)
      case (Inl e)
      with run b1 g1 show ?thesis by simp
    next
      case (Inr u)
      with run b1 have "for_each body xs a1 = (r, t)" by simp
      with Cons have "grows a1 t" by (rule replayable_grows)
      with g1 show ?thesis by (rule grows_trans)
    qed
    fix F b
    assume F: "grows t F" and err: "\<And>e. r = Inl e \<Longrightarrow> F = t" and rel: "replays F a b"
    show "\<exists>t'. for_each body (x # xs) b = (r, t') \<and> replays F t t'"
    proof (cases r1)
      case (Inl e)
      with run b1 have r: "r = Inl e" and t: "t = a1" by simp_all
      from body b1 F [unfolded t] err [unfolded t] rel
      obtain t' where "body x b = (r1, t')" "replays F a1 t'"
        using r Inl by (auto dest!: replayable_replays)
      with Inl r t show ?thesis by simp
    next
      case (Inr u)
      with run b1 have rest: "for_each body xs a1 = (r, t)" by simp
      with Cons have "grows a1 t" by (rule replayable_grows)
      with F have "grows a1 F" by (auto intro: grows_trans)
      with body b1 rel Inr obtain b1' where b1': "body x b = (r1, b1')" "replays F a1 b1'"
        by (auto dest!: replayable_replays)
      from Cons rest F err b1'(2) obtain t' where "for_each body xs b1' = (r, t')" "replays F t t'"
        by (auto dest!: replayable_replays)
      with b1' Inr show ?thesis by simp
    qed
  qed
qed

lemma replayable_pure: "replayable (\<lambda>a. (r, a))"
  by (rule replayableI) (auto simp: grows_refl)

lemma replayable_then_pure:
  assumes f: "replayable f"
  shows "replayable (\<lambda>a. case f a of (Inl e, t) \<Rightarrow> (Inl e, t) | (Inr u, t) \<Rightarrow> (k u, t))"
proof (rule replayableI)
  fix a r t
  assume run: "(case f a of (Inl e, t) \<Rightarrow> (Inl e, t) | (Inr u, t) \<Rightarrow> (k u, t)) = (r, t)"
  obtain r1 t1 where f1: "f a = (r1, t1)" by (cases "f a")
  with run have t: "t1 = t" by (auto split: sum.splits)
  from f f1 t show "grows a t" by (auto dest: replayable_grows)
  fix F b
  assume F: "grows t F" and err: "\<And>e. r = Inl e \<Longrightarrow> F = t" and rel: "replays F a b"
  have "\<And>e. r1 = Inl e \<Longrightarrow> F = t"
    using run f1 err by auto
  with f f1 F rel t obtain t' where "f b = (r1, t')" "replays F t t'"
    by (auto dest!: replayable_replays)
  with run f1
  show "\<exists>t'. (case f b of (Inl e, t) \<Rightarrow> (Inl e, t) | (Inr u, t) \<Rightarrow> (k u, t)) = (r, t') \<and> replays F t t'"
    by (auto split: sum.splits)
qed

lemma replayable_write_item_list: "replayable (write_item_list py info dct)"
proof -
  have "write_item_list py info dct =
     (case is_pull_request dct of
        Inl e \<Rightarrow> (\<lambda>a. (Inl e, a))
      | Inr pr \<Rightarrow> save_steps py (div_path (out_dir info) (if pr then ''pulls'' else ''issues'')) dct)"
    by (rule ext) (simp add: write_item_list_steps split: sum.splits)
  then show ?thesis
    by (simp add: replayable_pure replayable_save_steps split: sum.splits)
qed

lemma replayable_write_item_graph: "replayable (write_item_graph py info edge)"
proof -
  have "write_item_graph py info edge =
     (case getitem edge ''node'' of
        Inl e \<Rightarrow> (\<lambda>a. (Inl e, a))
      | Inr node \<Rightarrow>
          (case setitem node FORMAT_KEY (JInt FORMAT) of
             Inl e \<Rightarrow> (\<lambda>a. (Inl e, a))
           | Inr dct \<Rightarrow> save_steps py (div_path (out_dir info) ''issues'') dct))"
    by (rule ext) (simp add: write_item_graph_steps split: sum.splits)
  then show ?thesis
    by (simp add: replayable_pure replayable_save_steps split: sum.splits)
qed

lemma replayable_list_page:
  "replayable (\<lambda>a. case resp of
       Inl e \<Rightarrow> (Inl e, a)
     | Inr body \<Rightarrow>
         (case body of
            JArr lst \<Rightarrow>
              if lst = [] then (Inr False, a)
              else (case for_each (write_item_list py info) lst a of
                      (Inl e, fs') \<Rightarrow> (Inl e, fs')
                    | (Inr u, fs') \<Rightarrow> (Inr (length lst = PAGE_SIZE), fs'))
          | _ \<Rightarrow> (Inl AssertionError, a)))"
proof -
  have "replayable (\<lambda>a. case for_each (write_item_list py info) lst a of
                      (Inl e, fs') \<Rightarrow> (Inl e, fs')
                    | (Inr u, fs') \<Rightarrow> (Inr (length lst = PAGE_SIZE), fs'))" for lst
    by (intro replayable_then_pure replayable_for_each replayable_write_item_list)
  note loop = this
  show ?thesis
  proof (cases resp)
    case (Inl e)
    then show ?thesis by (simp add: replayable_pure)
  next
    case (Inr body)
    show ?thesis
    proof (cases "\<exists>lst. body = JArr lst")
      case False
      with Inr show ?thesis by (cases body) (simp_all add: replayable_pure)
    next
      case True
      then obtain lst where "body = JArr lst" by auto
      with Inr loop [of lst] show ?thesis by (cases "lst = []") (simp_all add: replayable_pure)
    qed
  qed
qed

lemma handle_result_steps:
  "handle_result py info result =
     (case getitem result ''repository'' of Inl e \<Rightarrow> (\<lambda>a. (Inl e, a)) | Inr repo \<Rightarrow>
      case getitem repo ''issues'' of Inl e \<Rightarrow> (\<lambda>a. (Inl e, a)) | Inr issues \<Rightarrow>
      case getitem issues ''edges'' of Inl e \<Rightarrow> (\<lambda>a. (Inl e, a)) | Inr edges \<Rightarrow>
      case getitem issues ''pageInfo'' of Inl e \<Rightarrow> (\<lambda>a. (Inl e, a)) | Inr page_info \<Rightarrow>
      case iterate edges of Inl e \<Rightarrow> (\<lambda>a. (Inl e, a)) | Inr edge_list \<Rightarrow>
        (\<lambda>a. case for_each (write_item_graph py info) edge_list a of
           (Inl e, fs') \<Rightarrow> (Inl e, fs')
         | (Inr u, fs') \<Rightarrow>
             ((case getitem page_info ''hasNextPage'' of
                 Inl e \<Rightarrow> Inl e
               | Inr has_next \<Rightarrow>
                   if truthy has_next then getitem page_info ''endCursor'' else Inr JNull), fs')))"
  by (rule ext) (simp add: handle_result_def split: sum.splits prod.splits)

lemma replayable_handle_result: "replayable (handle_result py info result)"
proof -
  have "replayable (\<lambda>a. case for_each (write_item_graph py info) edge_list a of
           (Inl e, fs') \<Rightarrow> (Inl e, fs')
         | (Inr u, fs') \<Rightarrow> (k u, fs'))" for edge_list and k :: "unit \<Rightarrow> py_error + json"
    by (intro replayable_then_pure replayable_for_each replayable_write_item_graph)
  then show ?thesis
    unfolding handle_result_steps
    by (simp add: replayable_pure split: sum.splits)
qed

lemma replayable_graph_page:
  "replayable (\<lambda>a. case resp of
       Inl e \<Rightarrow> (Inl e, a)
     | Inr result \<Rightarrow> handle_result py info result a)"
  by (cases resp) (simp_all add: replayable_pure replayable_handle_result)

lemma world_eqI:
  fixes w v :: "'r world"
  assumes "same_process w v" "fs v = fs w"
  shows "v = w"
  using assms by (cases w, cases v) (simp add: same_process_def)

lemma replayable_worldI:
  assumes "\<And>w r w1. f w = (r, w1) \<Longrightarrow> grows (fs w) (fs w1)"
    and "\<And>w r w1 F v. f w = (r, w1) \<Longrightarrow> grows (fs w1) F \<Longrightarrow> (\<And>e. r = Inl e \<Longrightarrow> F = fs w1) \<Longrightarrow>
           replays F (fs w) (fs v) \<Longrightarrow> same_process w v \<Longrightarrow>
           \<exists>v1. f v = (r, v1) \<and> replays F (fs w1) (fs v1) \<and> same_process w1 v1"
  shows "replayable_world f"
  unfolding replayable_world_def using assms by blast

lemma replayable_world_grows:
  "replayable_world f \<Longrightarrow> f w = (r, w1) \<Longrightarrow> grows (fs w) (fs w1)"
  unfolding replayable_world_def by blast

lemma replayable_world_replays:
  assumes "replayable_world f" "f w = (r, w1)" "grows (fs w1) F" "\<And>e. r = Inl e \<Longrightarrow> F = fs w1"
    "replays F (fs w) (fs v)" "same_process w v"
  shows "\<exists>v1. f v = (r, v1) \<and> replays F (fs w1) (fs v1) \<and> same_process w1 v1"
  using assms unfolding replayable_world_def by blast

text \<open>
  A step of the process that sends a request and then works on the files is replayable
  when the work on the files is: the second run sends the same request and gets the same
  response.
\<close>

lemma replayable_world_request:
  assumes steps: "\<And>resp. replayable (steps resp)"
    and f: "\<And>w. f w = (case steps (responses env (length (requests w))) (fs w) of
                (r, t) \<Rightarrow> (r, w\<lparr>requests := requests w @ [q], fs := t\<rparr>))"
  shows "replayable_world f"
proof (rule replayable_worldI)
  fix w r w1
  assume run: "f w = (r, w1)"
  let ?steps = "steps (responses env (length (requests w)))"
  obtain t where st: "?steps (fs w) = (r, t)" and w1: "w1 = w\<lparr>requests := requests w @ [q], fs := t\<rparr>"
    using run unfolding f by (cases "?steps (fs w)") auto
  from steps st have "grows (fs w) t" by (rule replayable_grows)
  with w1 show "grows (fs w) (fs w1)" by simp
  fix F v
  assume F: "grows (fs w1) F" and err: "\<And>e. r = Inl e \<Longrightarrow> F = fs w1"
    and rel: "replays F (fs w) (fs v)" and sp: "same_process w v"
  from F err w1 have "grows t F" "\<And>e. r = Inl e \<Longrightarrow> F = t" by simp_all
  with steps st rel obtain t' where t': "?steps (fs v) = (r, t')" "replays F t t'"
    by (auto dest!: replayable_replays)
  from sp have rq: "requests v = requests w" by (simp add: same_process_def)
  have "f v = (r, v\<lparr>requests := requests v @ [q], fs := t'\<rparr>)"
    unfolding f using t'(1) rq by simp
  moreover have "replays F (fs w1) (fs (v\<lparr>requests := requests v @ [q], fs := t'\<rparr>))"
    using t'(2) w1 by simp
  moreover have "same_process w1 (v\<lparr>requests := requests v @ [q], fs := t'\<rparr>)"
    using sp w1 by (simp add: same_process_def)
  ultimately show "\<exists>v1. f v = (r, v1) \<and> replays F (fs w1) (fs v1) \<and> same_process w1 v1"
    by blast
qed

lemma replayable_world_raise: "replayable_world (\<lambda>w. (Inl e, w))"
  by (rule replayable_worldI) (auto simp: grows_refl)

lemma replayable_scrap_page_list: "replayable_world (scrap_page_list py env info page)"
proof (rule replayable_world_request)
  show "replayable (\<lambda>a. case resp of
       Inl e \<Rightarrow> (Inl e, a)
     | Inr body \<Rightarrow>
         (case body of
            JArr lst \<Rightarrow>
              if lst = [] then (Inr False, a)
              else (case for_each (write_item_list py info) lst a of
                      (Inl e, fs') \<Rightarrow> (Inl e, fs')
                    | (Inr u, fs') \<Rightarrow> (Inr (length lst = PAGE_SIZE), fs'))
          | _ \<Rightarrow> (Inl AssertionError, a)))" for resp
    by (rule replayable_list_page)
  show "scrap_page_list py env info page w =
      (case (case responses env (length (requests w)) of
       Inl e \<Rightarrow> (Inl e, fs w)
     | Inr body \<Rightarrow>
         (case body of
            JArr lst \<Rightarrow>
              if lst = [] then (Inr False, fs w)
              else (case for_each (write_item_list py info) lst (fs w) of
                      (Inl e, fs') \<Rightarrow> (Inl e, fs')
                    | (Inr u, fs') \<Rightarrow> (Inr (length lst = PAGE_SIZE), fs'))
          | _ \<Rightarrow> (Inl AssertionError, fs w))) of
         (r, t) \<Rightarrow> (r, w\<lparr>requests := requests w @ [page_request env info page], fs := t\<rparr>))" for w
    by (simp add: scrap_page_list_def Let_def split: sum.splits json.splits prod.splits)
qed

lemma replayable_scrap_page_graph: "replayable_world (scrap_page_graph py env cl info cursor)"
proof (cases "\<exists>owner name. split CHR ''/'' (project info) = [owner, name]")
  case False
  then have "scrap_page_graph py env cl info cursor = (\<lambda>w. (Inl ValueError, w))"
    by (intro ext) (auto simp: scrap_page_graph_def split: list.splits)
  then show ?thesis by (simp add: replayable_world_raise)
next
  case True
  then obtain owner name where sp: "split CHR ''/'' (project info) = [owner, name]" by auto
  show ?thesis
  proof (rule replayable_world_request)
    show "replayable (\<lambda>a. case resp of
         Inl e \<Rightarrow> (Inl e, a)
       | Inr result \<Rightarrow> handle_result py info result a)" for resp
      by (rule replayable_graph_page)
    show "scrap_page_graph py env cl info cursor w =
        (case (case responses env (length (requests w)) of
           Inl e \<Rightarrow> (Inl e, fs w)
         | Inr result \<Rightarrow> handle_result py info result (fs w)) of
           (r, t) \<Rightarrow> (r, w\<lparr>requests := requests w @ [cursor_request cl info owner name cursor],
                            fs := t\<rparr>))" for w
      using sp by (simp add: scrap_page_graph_def Let_def split: sum.splits prod.splits)
  qed
qed

lemma scrap_from_page_replays:
  assumes "scrap_from_page py env info page w = Some y"
  shows "grows (fs w) (fs (snd y)) \<and>
    (\<forall>F v. grows (fs (snd y)) F \<and> (\<forall>e. fst y = Inl e \<longrightarrow> F = fs (snd y)) \<and>
           replays F (fs w) (fs v) \<and> same_process w v \<longrightarrow>
       (\<exists>v'. scrap_from_page py env info page v = Some (fst y, v') \<and>
             replays F (fs (snd y)) (fs v') \<and> same_process (snd y) v'))"
  using assms
proof (induction py env info page w y rule: scrap_from_page.raw_induct)
  case (1 loop py env info page w y)
  note pg_ok = replayable_scrap_page_list [of py env info page]
  obtain r1 w1 where pg: "scrap_page_list py env info page w = (r1, w1)"
    by (cases "scrap_page_list py env info page w")
  from pg_ok pg have g1: "grows (fs w) (fs w1)" by (rule replayable_world_grows)
  have stop: ?case if y: "y = (r, w1)" and r1: "r1 = Inl e \<and> r = Inl e \<or> r1 = Inr False \<and> r = Inr ()"
    for r e
  proof (intro conjI allI impI)
    from g1 y show "grows (fs w) (fs (snd y))" by simp
    fix F v
    assume a: "grows (fs (snd y)) F \<and> (\<forall>e. fst y = Inl e \<longrightarrow> F = fs (snd y)) \<and>
      replays F (fs w) (fs v) \<and> same_process w v"
    have "\<exists>v1. scrap_page_list py env info page v = (r1, v1) \<and> replays F (fs w1) (fs v1) \<and>
        same_process w1 v1"
      using pg_ok pg
    proof (rule replayable_world_replays)
      show "grows (fs w1) F" using a y by simp
      show "F = fs w1" if "r1 = Inl e'" for e' using a y r1 that by auto
      show "replays F (fs w) (fs v)" "same_process w v" using a by simp_all
    qed
    then obtain v1 where v1: "scrap_page_list py env info page v = (r1, v1)"
      "replays F (fs w1) (fs v1)" "same_process w1 v1" by blast
    from v1(1) r1 have "scrap_from_page py env info page v = Some (r, v1)"
      by (subst scrap_from_page.simps) auto
    with v1 y show "\<exists>v'. scrap_from_page py env info page v = Some (fst y, v') \<and>
        replays F (fs (snd y)) (fs v') \<and> same_process (snd y) v'"
      by auto
  qed
  show ?case
  proof (cases r1)
    case (Inl e)
    with 1(2) pg have "y = (Inl e, w1)" by simp
    with Inl show ?thesis by (intro stop [of "Inl e" e]) simp_all
  next
    case (Inr again)
    show ?thesis
    proof (cases again)
      case False
      with 1(2) pg Inr have "y = (Inr (), w1)" by simp
      with Inr False show ?thesis by (intro stop [of "Inr ()"]) simp_all
    next
      case True
      with 1(2) pg Inr have approx: "loop py env info (Suc page) w1 = Some y" by simp
      from 1(3) pg Inr True have real: "scrap_from_page py env info (Suc page) w1 = Some y"
        by (subst (asm) scrap_from_page.simps) simp
      note IH = 1(1) [OF approx real]
      show ?thesis
      proof (intro conjI allI impI)
        from g1 IH show "grows (fs w) (fs (snd y))" by (auto intro: grows_trans)
        fix F v
        assume a: "grows (fs (snd y)) F \<and> (\<forall>e. fst y = Inl e \<longrightarrow> F = fs (snd y)) \<and>
          replays F (fs w) (fs v) \<and> same_process w v"
        have "\<exists>v1. scrap_page_list py env info page v = (r1, v1) \<and> replays F (fs w1) (fs v1) \<and>
            same_process w1 v1"
          using pg_ok pg
        proof (rule replayable_world_replays)
          show "grows (fs w1) F" using a IH by (auto intro: grows_trans)
          show "F = fs w1" if "r1 = Inl e'" for e' using that Inr by simp
          show "replays F (fs w) (fs v)" "same_process w v" using a by simp_all
        qed
        then obtain v1 where v1: "scrap_page_list py env info page v = (r1, v1)"
          "replays F (fs w1) (fs v1)" "same_process w1 v1" by blast
        from IH a v1(2,3) obtain v' where v': "scrap_from_page py env info (Suc page) v1 = Some (fst y, v')"
          "replays F (fs (snd y)) (fs v')" "same_process (snd y) v'" by blast
        from v1(1) Inr True have "scrap_from_page py env info page v
            = scrap_from_page py env info (Suc page) v1"
          by (subst scrap_from_page.simps) simp
        with v' show "\<exists>v'. scrap_from_page py env info page v = Some (fst y, v') \<and>
            replays F (fs (snd y)) (fs v') \<and> same_process (snd y) v'"
          by auto
      qed
    qed
  qed
qed (fact assms)

lemma scrap_from_cursor_replays:
  assumes "scrap_from_cursor py env cl info cursor w = Some y"
  shows "grows (fs w) (fs (snd y)) \<and>
    (\<forall>F v. grows (fs (snd y)) F \<and> (\<forall>e. fst y = Inl e \<longrightarrow> F = fs (snd y)) \<and>
           replays F (fs w) (fs v) \<and> same_process w v \<longrightarrow>
       (\<exists>v'. scrap_from_cursor py env cl info cursor v = Some (fst y, v') \<and>
             replays F (fs (snd y)) (fs v') \<and> same_process (snd y) v'))"
  using assms
proof (induction py env cl info cursor w y rule: scrap_from_cursor.raw_induct)
  case (1 loop py env cl info cursor w y)
  note pg_ok = replayable_scrap_page_graph [of py env cl info cursor]
  obtain r1 w1 where pg: "scrap_page_graph py env cl info cursor w = (r1, w1)"
    by (cases "scrap_page_graph py env cl info cursor w")
  from pg_ok pg have g1: "grows (fs w) (fs w1)" by (rule replayable_world_grows)
  have stop: ?case if y: "y = (r, w1)" and r1: "r1 = Inl e \<and> r = Inl e \<or> r1 = Inr JNull \<and> r = Inr ()"
    for r e
  proof (intro conjI allI impI)
    from g1 y show "grows (fs w) (fs (snd y))" by simp
    fix F v
    assume a: "grows (fs (snd y)) F \<and> (\<forall>e. fst y = Inl e \<longrightarrow> F = fs (snd y)) \<and>
      replays F (fs w) (fs v) \<and> same_process w v"
    have "\<exists>v1. scrap_page_graph py env cl info cursor v = (r1, v1) \<and>
        replays F (fs w1) (fs v1) \<and> same_process w1 v1"
      using pg_ok pg
    proof (rule replayable_world_replays)
      show "grows (fs w1) F" using a y by simp
      show "F = fs w1" if "r1 = Inl e'" for e' using a y r1 that by auto
      show "replays F (fs w) (fs v)" "same_process w v" using a by simp_all
    qed
    then obtain v1 where v1: "scrap_page_graph py env cl info cursor v = (r1, v1)"
      "replays F (fs w1) (fs v1)" "same_process w1 v1" by blast
    from v1(1) r1 have "scrap_from_cursor py env cl info cursor v = Some (r, v1)"
      by (subst scrap_from_cursor.simps) auto
    with v1 y show "\<exists>v'. scrap_from_cursor py env cl info cursor v = Some (fst y, v') \<and>
        replays F (fs (snd y)) (fs v') \<and> same_process (snd y) v'"
      by auto
  qed
  show ?case
  proof (cases r1)
    case (Inl e)
    with 1(2) pg have "y = (Inl e, w1)" by simp
    with Inl show ?thesis by (intro stop [of "Inl e" e]) simp_all
  next
    case (Inr c)
    show ?thesis
    proof (cases "c = JNull")
      case True
      with 1(2) pg Inr have "y = (Inr (), w1)" by simp
      with Inr True show ?thesis by (intro stop [of "Inr ()"]) simp_all
    next
      case False
      with 1(2) pg Inr have approx: "loop py env cl info c w1 = Some y" by simp
      from 1(3) pg Inr False have real: "scrap_from_cursor py env cl info c w1 = Some y"
        by (subst (asm) scrap_from_cursor.simps) simp
      note IH = 1(1) [OF approx real]
      show ?thesis
      proof (intro conjI allI impI)
        from g1 IH show "grows (fs w) (fs (snd y))" by (auto intro: grows_trans)
        fix F v
        assume a: "grows (fs (snd y)) F \<and> (\<forall>e. fst y = Inl e \<longrightarrow> F = fs (snd y)) \<and>
          replays F (fs w) (fs v) \<and> same_process w v"
        have "\<exists>v1. scrap_page_graph py env cl info cursor v = (r1, v1) \<and>
            replays F (fs w1) (fs v1) \<and> same_process w1 v1"
          using pg_ok pg
        proof (rule replayable_world_replays)
          show "grows (fs w1) F" using a IH by (auto intro: grows_trans)
          show "F = fs w1" if "r1 = Inl e'" for e' using that Inr by simp
          show "replays F (fs w) (fs v)" "same_process w v" using a by simp_all
        qed
        then obtain v1 where v1: "scrap_page_graph py env cl info cursor v = (r1, v1)"
          "replays F (fs w1) (fs v1)" "same_process w1 v1" by blast
        from IH a v1(2,3) obtain v' where v': "scrap_from_cursor py env cl info c v1 = Some (fst y, v')"
          "replays F (fs (snd y)) (fs v')" "same_process (snd y) v'" by blast
        from v1(1) Inr False have "scrap_from_cursor py env cl info cursor v
            = scrap_from_cursor py env cl info c v1"
          by (subst scrap_from_cursor.simps) simp
        with v' show "\<exists>v'. scrap_from_cursor py env cl info cursor v = Some (fst y, v') \<and>
            replays F (fs (snd y)) (fs v') \<and> same_process (snd y) v'"
          by auto
      qed
    qed
  qed
qed (fact assms)

text \<open>
  A loop that has ended, entered again from the world it started in but over the files it
  left, ends with the same outcome in the world it ended in before.
\<close>

lemma scrap_from_page_again:
  assumes "scrap_from_page py env info page w = Some (r, w')"
  shows "grows (fs w) (fs w')"
    and "scrap_from_page py env info page (w\<lparr>fs := fs w'\<rparr>) = Some (r, w')"
proof -
  note rp = scrap_from_page_replays [OF assms]
  from rp show g: "grows (fs w) (fs w')" by simp
  have "grows (fs w') (fs w')" "replays (fs w') (fs w) (fs (w\<lparr>fs := fs w'\<rparr>))"
    "same_process w (w\<lparr>fs := fs w'\<rparr>)"
    using g by (simp_all add: grows_refl replays_start same_process_def)
  with rp obtain v' where v': "scrap_from_page py env info page (w\<lparr>fs := fs w'\<rparr>) = Some (r, v')"
    "replays (fs w') (fs w') (fs v')" "same_process w' v'"
    by fastforce
  from v'(2) have "fs v' = fs w'" by (rule replays_final)
  with v'(3) have "v' = w'" by (rule world_eqI)
  with v'(1) show "scrap_from_page py env info page (w\<lparr>fs := fs w'\<rparr>) = Some (r, w')" by simp
qed

lemma scrap_from_cursor_again:
  assumes "scrap_from_cursor py env cl info cursor w = Some (r, w')"
  shows "grows (fs w) (fs w')"
    and "scrap_from_cursor py env cl info cursor (w\<lparr>fs := fs w'\<rparr>) = Some (r, w')"
proof -
  note rp = scrap_from_cursor_replays [OF assms]
  from rp show g: "grows (fs w) (fs w')" by simp
  have "grows (fs w') (fs w')" "replays (fs w') (fs w) (fs (w\<lparr>fs := fs w'\<rparr>))"
    "same_process w (w\<lparr>fs := fs w'\<rparr>)"
    using g by (simp_all add: grows_refl replays_start same_process_def)
  with rp obtain v' where v': "scrap_from_cursor py env cl info cursor (w\<lparr>fs := fs w'\<rparr>) = Some (r, v')"
    "replays (fs w') (fs w') (fs v')" "same_process w' v'"
    by fastforce
  from v'(2) have "fs v' = fs w'" by (rule replays_final)
  with v'(3) have "v' = w'" by (rule world_eqI)
  with v'(1) show "scrap_from_cursor py env cl info cursor (w\<lparr>fs := fs w'\<rparr>) = Some (r, w')"
    by simp
qed

lemma is_dir_grows:
  assumes "is_dir p a" "grows a b"
  shows "is_dir p b"
proof -
  from assms(1) obtain place where place: "resolve a p = Inr place" "place \<in> dirs a"
    by (auto simp: is_dir_def path_is_dir_def split: sum.splits if_splits)
  from place(1) growsD(1,2) [OF assms(2)] have "resolve b p = Inr place"
    by (rule resolve_more_dirs)
  moreover from place(2) growsD(2) [OF assms(2)] have "place \<in> dirs b" by blast
  ultimately show ?thesis by (simp add: is_dir_def path_is_dir_def)
qed

lemma main_list_again:
  assumes "main_list py env args w = Some (r, w')"
  shows "main_list py env args (w\<lparr>fs := fs w'\<rparr>) = Some (r, w')"
proof (cases "GITHUB_TOKEN env = [] \<or> \<not> is_dir (Path (arg_out_dir args)) (fs w) \<or>
    (\<exists>e. since_of_args (parse_since_list py (clock env)) (arg_since args) = Inl e)")
  case True
  with assms have "w' = w"
    by (auto simp: main_list_def is_dir_def Let_def split: if_splits sum.splits)
  with assms show ?thesis by simp
next
  case False
  then obtain sn where sn: "since_of_args (parse_since_list py (clock env)) (arg_since args) = Inr sn"
    by (cases "since_of_args (parse_since_list py (clock env)) (arg_since args)") auto
  let ?info = "\<lparr>project = arg_project args, out_dir = Path (arg_out_dir args), since = sn\<rparr>"
  from assms False sn obtain r0 where
    run: "scrap_from_page py env ?info 1 w = Some (r0, w')"
    and r: "r = (case r0 of Inl e \<Rightarrow> Inl e | Inr u \<Rightarrow> Inr 0)"
    by (auto simp: main_list_def is_dir_def Let_def scrap_list_def split: option.splits sum.splits)
  from run have g: "grows (fs w) (fs w')"
    and again: "scrap_from_page py env ?info 1 (w\<lparr>fs := fs w'\<rparr>) = Some (r0, w')"
    by (rule scrap_from_page_again)+
  from False g have "is_dir (Path (arg_out_dir args)) (fs w')"
    by (auto intro: is_dir_grows)
  with False sn again r show ?thesis
    by (auto simp: main_list_def is_dir_def Let_def scrap_list_def split: sum.splits)
qed

lemma main_graph_again:
  assumes "main_graph py env args w = Some (r, w')"
  shows "main_graph py env args (w\<lparr>fs := fs w'\<rparr>) = Some (r, w')"
proof (cases "\<not> is_dir (Path (arg_out_dir args)) (fs w) \<or> GITHUB_TOKEN env = [] \<or>
    (\<exists>e. create_client env (GITHUB_TOKEN env) = Inl e) \<or>
    (\<exists>e. since_of_args (parse_since_graph py (clock env)) (arg_since args) = Inl e)")
  case True
  with assms have "fs w' = fs w"
    by (auto simp: main_graph_def is_dir_def Let_def split: if_splits sum.splits)
  with assms show ?thesis by simp
next
  case False
  then obtain sn cl where sn: "since_of_args (parse_since_graph py (clock env)) (arg_since args) = Inr sn"
    and cl: "create_client env (GITHUB_TOKEN env) = Inr cl"
    by (cases "since_of_args (parse_since_graph py (clock env)) (arg_since args)";
        cases "create_client env (GITHUB_TOKEN env)") auto
  let ?info = "\<lparr>project = arg_project args, out_dir = Path (arg_out_dir args), since = sn\<rparr>"
  let ?w1 = "w\<lparr>clients := clients w @ [cl]\<rparr>"
  from assms False sn cl obtain r0 where
    run: "scrap_from_cursor py env cl ?info JNull ?w1 = Some (r0, w')"
    and r: "r = (case r0 of Inl e \<Rightarrow> Inl e | Inr u \<Rightarrow> Inr 0)"
    by (auto simp: main_graph_def is_dir_def Let_def scrap_graph_def split: option.splits sum.splits)
  from run have g: "grows (fs ?w1) (fs w')"
    and again: "scrap_from_cursor py env cl ?info JNull (?w1\<lparr>fs := fs w'\<rparr>) = Some (r0, w')"
    by (rule scrap_from_cursor_again)+
  from False g have "is_dir (Path (arg_out_dir args)) (fs w')"
    by (auto intro: is_dir_grows)
  moreover have eq: "(w\<lparr>fs := fs w'\<rparr>)\<lparr>clients := clients w @ [cl]\<rparr> = ?w1\<lparr>fs := fs w'\<rparr>"
    by simp
  note again [folded eq]
  ultimately show ?thesis
    using False sn cl r
    by (auto simp: main_graph_def is_dir_def Let_def scrap_graph_def split: sum.splits)
qed

text \<open>
  C8. Idempotence of the output. Take a run of either variant that ends, whatever its
  outcome, and run the program again with the same arguments, the same surroundings and
  the same sequence of responses, in a fresh process over the files the first run left.
  The second run ends with the same outcome, has sent the same requests, and leaves the
  file system exactly as the first run left it: the same directories, and the same
  content in every file. The serialiser enters only as a function of the record.
\<close>

theorem rerun_leaves_output_unchanged:
  "(main_list py env args w = Some (r, w') \<longrightarrow>
      main_list py env args (w\<lparr>fs := fs w'\<rparr>) = Some (r, w')) \<and>
   (main_graph py env args wg = Some (rg, wg') \<longrightarrow>
      main_graph py env args (wg\<lparr>fs := fs wg'\<rparr>) = Some (rg, wg'))"
  using main_list_again [of py env args w r w'] main_graph_again [of py env args wg rg wg']
  by blast

lemma main_list_short_page:
  "main_list sample_python (sample_env short_page) sample_args sample_world
   = Some (Inr 0,
       \<lparr>fs = \<lparr>cwd = [''home'', ''me''],
               dirs = {[''home'', ''me'', ''out'', ''pulls''], [], [''home''], [''home'', ''me''],
                       [''home'', ''me'', ''out''], [''home'', ''me'', ''out'', ''issues'']},
               files = [[''home'', ''me'', ''out'', ''pulls'', ''7.json''] \<mapsto> ''json of #7'',
                        [''home'', ''me'', ''out'', ''issues'', ''8.json''] \<mapsto> ''json of #8'']\<rparr>,
        requests = [\<lparr>url = ''https://api.github.com/repos/octo/demo/issues'',
                     header_accept = ''application/vnd.github+json'',
                     header_authorization = ''Bearer t0ken'',
                     param_state = ''all'', param_per_page = 100, param_page = 1,
                     param_since = None\<rparr>],
        clients = [], errlog = []\<rparr>)"
proof -
  let ?w = "sample_world :: rest_request world"
  let ?env = "sample_env short_page"
  let ?d = "[''home'', ''me'', ''out'']"
  let ?fs1 = "\<lparr>cwd = [''home'', ''me''],
               dirs = {[''home'', ''me'', ''out'', ''pulls''], [], [''home''], [''home'', ''me''],
                       [''home'', ''me'', ''out''], [''home'', ''me'', ''out'', ''issues'']},
               files = [[''home'', ''me'', ''out'', ''pulls'', ''7.json''] \<mapsto> ''json of #7'',
                        [''home'', ''me'', ''out'', ''issues'', ''8.json''] \<mapsto> ''json of #8'']\<rparr>"
  have seven: "str_int 7 = ''7''" and eight: "str_int 8 = ''8''"
    by (simp_all add: str_int_def str_nat.simps)
  have "for_each (write_item_list sample_python sample_info) [item7, item8] (fs ?w)
      = (Inr (), foldl (\<lambda>f dct. written_list sample_python ?d dct f) (fs ?w) [item7, item8])"
  proof (rule for_each_write_item_list)
    show "\<forall>dct \<in> set [item7, item8]. is_item sample_python dct"
      by (simp add: is_item_def item7_def item8_def sample_python_def seven eight NAME_MAX_def)
    show "resolve (fs ?w) (out_dir sample_info) = Inr ?d"
      by (simp add: sample_info_def sample_world_def sample_fs_def resolve_sample_out_dir)
    show "?d \<in> dirs (fs ?w)" by (simp add: sample_world_def sample_fs_def)
    show "fs_length (fspath (out_dir sample_info)) + 263 < PATH_MAX"
      by (simp add: sample_info_def sample_out_dir PATH_MAX_def)
    show "?d @ [''issues''] \<notin> dom (files (fs ?w))" "?d @ [''pulls''] \<notin> dom (files (fs ?w))"
      by (simp_all add: sample_world_def sample_fs_def)
    show "\<forall>dct \<in> set [item7, item8]. ?d @ [category dct, item_file dct] \<notin> dirs (fs ?w)"
      by (simp add: sample_world_def sample_fs_def)
  qed
  also have "foldl (\<lambda>f dct. written_list sample_python ?d dct f) (fs ?w) [item7, item8] = ?fs1"
    by (auto simp: sample_world_def sample_fs_def written_list_def item7_def item8_def
        category_def item_file_def serialized_def getitem_def sample_python_def seven eight)
  finally have wr: "for_each (write_item_list sample_python sample_info) [item7, item8] (fs ?w)
      = (Inr (), ?fs1)" .
  have "responses ?env (length (requests ?w)) = Inr (JArr [item7, item8])"
    by (simp add: sample_env_def short_page_def sample_world_def)
  then have "scrap_page_list sample_python ?env sample_info 1 ?w
      = (Inr (length [item7, item8] = PAGE_SIZE),
         ?w\<lparr>requests := requests ?w @ [page_request ?env sample_info 1], fs := ?fs1\<rparr>)"
    using _ wr by (rule scrap_page_list_items) simp
  then have "scrap_from_page sample_python ?env sample_info 1 ?w
      = Some (Inr (), ?w\<lparr>requests := requests ?w @ [page_request ?env sample_info 1], fs := ?fs1\<rparr>)"
    by (subst scrap_from_page.simps) (simp add: PAGE_SIZE_def)
  then have loop: "scrap_list sample_python ?env
        \<lparr>project = arg_project sample_args, out_dir = Path (arg_out_dir sample_args),
         since = None\<rparr> ?w
      = Some (Inr (), ?w\<lparr>requests := requests ?w @ [page_request ?env sample_info 1], fs := ?fs1\<rparr>)"
    by (simp add: scrap_list_def sample_args_def sample_info_def)
  have start: "GITHUB_TOKEN ?env \<noteq> []"
    "path_is_dir (Path (arg_out_dir sample_args)) (fs ?w) = Inr True"
    "since_of_args (parse_since_list sample_python (clock ?env)) (arg_since sample_args) = Inr None"
    by (simp_all add: sample_env_def sample_args_def sample_world_def sample_path_is_dir
        since_of_args_def)
  have "main_list sample_python ?env sample_args ?w
      = Some (Inr 0, ?w\<lparr>requests := requests ?w @ [page_request ?env sample_info 1], fs := ?fs1\<rparr>)"
    unfolding main_list_def Let_def by (simp add: start loop)
  then show ?thesis
    by (simp add: sample_world_def page_request_def PAGE_SIZE_def sample_info_def sample_env_def)
qed

lemma main_graph_sample_run:
  "main_graph sample_python (sample_env last_page) sample_args sample_world
   = Some (Inr 0,
       \<lparr>fs = \<lparr>cwd = [''home'', ''me''],
               dirs = {[], [''home''], [''home'', ''me''], [''home'', ''me'', ''out''],
                       [''home'', ''me'', ''out'', ''issues'']},
               files = [[''home'', ''me'', ''out'', ''issues'', ''8.json''] \<mapsto> ''old'',
                        [''home'', ''me'', ''out'', ''issues'', ''5.json''] \<mapsto> ''json of #5'']\<rparr>,
        requests = [\<lparr>sent_by = sample_client, var_owner = ''octo'', var_name = ''demo'',
                     var_since = None, var_issues_after = JNull\<rparr>],
        clients = [sample_client], errlog = []\<rparr>)"
proof -
  have "sample_args\<lparr>arg_since := None\<rparr> = sample_args" by (simp add: sample_args_def)
  with main_graph_last_page [of None] show ?thesis by simp
qed

text \<open>
  The list variant run again over the two files it wrote, and the graph variant run again
  over the file it wrote: the files stay as they are.
\<close>

theorem rerun_leaves_output_unchanged_witness:
  "main_list sample_python (sample_env short_page) sample_args
     (sample_world\<lparr>fs :=
        \<lparr>cwd = [''home'', ''me''],
         dirs = {[''home'', ''me'', ''out'', ''pulls''], [], [''home''], [''home'', ''me''],
                 [''home'', ''me'', ''out''], [''home'', ''me'', ''out'', ''issues'']},
         files = [[''home'', ''me'', ''out'', ''pulls'', ''7.json''] \<mapsto> ''json of #7'',
                  [''home'', ''me'', ''out'', ''issues'', ''8.json''] \<mapsto> ''json of #8'']\<rparr>\<rparr>)
   = Some (Inr 0,
       \<lparr>fs = \<lparr>cwd = [''home'', ''me''],
               dirs = {[''home'', ''me'', ''out'', ''pulls''], [], [''home''], [''home'', ''me''],
                       [''home'', ''me'', ''out''], [''home'', ''me'', ''out'', ''issues'']},
               files = [[''home'', ''me'', ''out'', ''pulls'', ''7.json''] \<mapsto> ''json of #7'',
                        [''home'', ''me'', ''out'', ''issues'', ''8.json''] \<mapsto> ''json of #8'']\<rparr>,
        requests = [\<lparr>url = ''https://api.github.com/repos/octo/demo/issues'',
                     header_accept = ''application/vnd.github+json'',
                     header_authorization = ''Bearer t0ken'',
                     param_state = ''all'', param_per_page = 100, param_page = 1,
                     param_since = None\<rparr>],
        clients = [], errlog = []\<rparr>) \<and>
   main_graph sample_python (sample_env last_page) sample_args
     (sample_world\<lparr>fs :=
        \<lparr>cwd = [''home'', ''me''],
         dirs = {[], [''home''], [''home'', ''me''], [''home'', ''me'', ''out''],
                 [''home'', ''me'', ''out'', ''issues'']},
         files = [[''home'', ''me'', ''out'', ''issues'', ''8.json''] \<mapsto> ''old'',
                  [''home'', ''me'', ''out'', ''issues'', ''5.json''] \<mapsto> ''json of #5'']\<rparr>\<rparr>)
   = Some (Inr 0,
       \<lparr>fs = \<lparr>cwd = [''home'', ''me''],
               dirs = {[], [''home''], [''home'', ''me''], [''home'', ''me'', ''out''],
                       [''home'', ''me'', ''out'', ''issues'']},
               files = [[''home'', ''me'', ''out'', ''issues'', ''8.json''] \<mapsto> ''old'',
                        [''home'', ''me'', ''out'', ''issues'', ''5.json''] \<mapsto> ''json of #5'']\<rparr>,
        requests = [\<lparr>sent_by = sample_client, var_owner = ''octo'', var_name = ''demo'',
                     var_since = None, var_issues_after = JNull\<rparr>],
        clients = [sample_client], errlog = []\<rparr>)"
proof -
  note first = rerun_leaves_output_unchanged [THEN conjunct1, rule_format, OF main_list_short_page]
  note second = rerun_leaves_output_unchanged [THEN conjunct2, rule_format, OF main_graph_sample_run]
  from first second show ?thesis by simp
qed

section \<open>What the graph variant leaves in the file system\<close>

lemma only_stamped_issues_refl: "only_stamped_issues py d fsys fsys"
  by (auto simp: only_stamped_issues_def)

lemma only_stamped_issuesD:
  assumes "only_stamped_issues py d a b"
  shows "cwd b = cwd a" "dirs a \<subseteq> dirs b" "dirs b \<subseteq> insert (d @ [''issues'']) (dirs a)"
    "\<And>p. files b p \<noteq> files a p \<Longrightarrow> stamped_issue_file py d b p"
  using assms unfolding only_stamped_issues_def by blast+

lemma only_stamped_issues_trans:
  assumes "only_stamped_issues py d a b" "only_stamped_issues py d b c"
  shows "only_stamped_issues py d a c"
proof -
  note ab = only_stamped_issuesD [OF assms(1)] and bc = only_stamped_issuesD [OF assms(2)]
  have "stamped_issue_file py d c p" if "files c p \<noteq> files a p" for p
  proof (cases "files c p = files b p")
    case True
    with that have "files b p \<noteq> files a p" by simp
    then have "stamped_issue_file py d b p" by (rule ab(4))
    with True show ?thesis by (simp add: stamped_issue_file_def)
  next
    case False
    then show ?thesis by (rule bc(4))
  qed
  moreover have "cwd c = cwd a" using ab(1) bc(1) by simp
  moreover have "dirs a \<subseteq> dirs c" using ab(2) bc(2) by blast
  moreover have "dirs c \<subseteq> insert (d @ [''issues'']) (dirs a)" using ab(3) bc(3) by blast
  ultimately show ?thesis unfolding only_stamped_issues_def by blast
qed

lemma only_stamped_issues_resolve:
  assumes "only_stamped_issues py d a b" "resolve a p = Inr place"
  shows "resolve b p = Inr place"
  using assms(2) only_stamped_issuesD(1,2) [OF assms(1)] by (rule resolve_more_dirs)

lemma format_int_result: "format_int i = Inr s \<Longrightarrow> s = str_int i"
  by (simp add: format_int_def split: if_splits)

text \<open>
  The steps that write one stamped record whose number, if it has one, is an integer:
  the directory made is \<open>issues\<close> in the output directory, the file written is named
  after the number and lies there.
\<close>

lemma save_steps_stamped:
  assumes run: "save_steps py (div_path od ''issues'')
        (JObj (update_item FORMAT_KEY (JInt FORMAT) kvs)) a = (r, b)"
    and od: "resolve a od = Inr d"
    and int: "\<And>n. map_of kvs ''number'' = Some n \<Longrightarrow> \<exists>i. n = JInt i"
  shows "only_stamped_issues py d a b"
proof (cases "mkdir (div_path od ''issues'') a")
  case (Inl e)
  with run show ?thesis by (simp add: save_steps_def only_stamped_issues_refl)
next
  case mk: (Inr fs1)
  let ?dir = "div_path od ''issues''"
  let ?dct = "JObj (update_item FORMAT_KEY (JInt FORMAT) kvs)"
  from mkdir_result [OF mk] obtain place where
    place: "resolve a ?dir = Inr place" and fs1: "fs1 = a\<lparr>dirs := insert place (dirs a)\<rparr>"
    by (elim exE conjE)
  from plain_issues(1) od place have pl: "place = d @ [''issues'']"
    by (rule resolve_div_path_place)
  have one: "only_stamped_issues py d a fs1"
    by (auto simp: only_stamped_issues_def fs1 pl)
  have stop: ?thesis if "b = fs1" using that one by simp
  show ?thesis
  proof (cases "getitem ?dct ''number''")
    case (Inl e)
    with run mk show ?thesis by (intro stop) (simp add: save_steps_def)
  next
    case num: (Inr item_id)
    then have "map_of kvs ''number'' = Some item_id"
      by (auto simp: getitem_def map_of_update_item FORMAT_KEY_def split: option.splits if_splits)
    then obtain i where i: "item_id = JInt i" using int by blast
    show ?thesis
    proof (cases "format_value py item_id")
      case (Inl e)
      with run mk num show ?thesis by (intro stop) (simp add: save_steps_def)
    next
      case fmt: (Inr formatted)
      with i have formatted: "formatted = str_int i"
        by (simp add: format_value_def format_int_result)
      show ?thesis
      proof (cases "json_dumps py ?dct 2 True")
        case (Inl e)
        with run mk num fmt show ?thesis by (intro stop) (simp add: save_steps_def)
      next
        case ser: (Inr text')
        show ?thesis
        proof (cases "getitem ?dct ''title''")
          case (Inl e)
          with run mk num fmt ser show ?thesis by (intro stop) (simp add: save_steps_def)
        next
          case tit: (Inr title)
          let ?name = "str_int i @ ''.json''"
          show ?thesis
          proof (cases "write_text (div_path ?dir ?name) text' fs1")
            case (Inl e)
            with run mk num fmt ser tit formatted show ?thesis
              by (intro stop) (simp add: save_steps_def)
          next
            case wr: (Inr fs2)
            with run mk num fmt ser tit formatted have b: "b = fs2"
              by (simp add: save_steps_def)
            from write_text_result [OF wr] obtain place2 where
              place2: "resolve fs1 (div_path ?dir ?name) = Inr place2"
              and fs2: "fs2 = fs1\<lparr>files := (files fs1)(place2 \<mapsto> text')\<rparr>"
              by (elim exE conjE)
            from one place have "resolve fs1 ?dir = Inr place"
              by (rule only_stamped_issues_resolve)
            with plain_item_name have "place2 = place @ [?name]"
              using place2 by (rule resolve_div_path_place)
            then have p2: "place2 = d @ [''issues'', ?name]" by (simp add: pl)
            have "map_of (update_item FORMAT_KEY (JInt FORMAT) kvs) ''_format'' = Some (JInt 2)"
              by (simp add: map_of_update_item FORMAT_KEY_def FORMAT_def)
            with ser have "stamped_issue_file py d fs2 place2"
              unfolding stamped_issue_file_def fs2 p2 by fastforce
            then have "only_stamped_issues py d fs1 fs2"
              unfolding only_stamped_issues_def by (auto simp: fs2)
            with one show ?thesis unfolding b by (rule only_stamped_issues_trans)
          qed
        qed
      qed
    qed
  qed
qed

lemma write_item_graph_stamped:
  assumes "write_item_graph py info edge a = (r, b)" "resolve a (out_dir info) = Inr d"
    "integer_numbered edge"
  shows "only_stamped_issues py d a b"
proof (cases "getitem edge ''node''")
  case (Inl e)
  with assms(1) show ?thesis by (simp add: write_item_graph_steps only_stamped_issues_refl)
next
  case node: (Inr node)
  show ?thesis
  proof (cases "setitem node FORMAT_KEY (JInt FORMAT)")
    case (Inl e)
    with assms(1) node show ?thesis
      by (simp add: write_item_graph_steps only_stamped_issues_refl)
  next
    case (Inr dct)
    then obtain kvs where kvs: "node = JObj kvs"
      "dct = JObj (update_item FORMAT_KEY (JInt FORMAT) kvs)"
      by (rule setitem_result)
    from assms(1) node Inr kvs
    have "save_steps py (div_path (out_dir info) ''issues'')
        (JObj (update_item FORMAT_KEY (JInt FORMAT) kvs)) a = (r, b)"
      by (simp add: write_item_graph_steps)
    then show ?thesis using assms(2)
    proof (rule save_steps_stamped)
      fix n
      assume "map_of kvs ''number'' = Some n"
      with assms(3) node kvs show "\<exists>i. n = JInt i"
        by (cases n) (simp_all add: integer_numbered_def getitem_def)
    qed
  qed
qed

lemma for_each_write_item_graph_stamped:
  assumes "for_each (write_item_graph py info) edges a = (r, b)"
    "resolve a (out_dir info) = Inr d" "list_all integer_numbered edges"
  shows "only_stamped_issues py d a b"
  using assms
proof (induction edges arbitrary: a)
  case Nil
  then show ?case by (simp add: only_stamped_issues_refl)
next
  case (Cons edge edges)
  obtain r1 a1 where b1: "write_item_graph py info edge a = (r1, a1)"
    by (cases "write_item_graph py info edge a")
  from b1 Cons.prems(2) have first: "only_stamped_issues py d a a1"
    by (rule write_item_graph_stamped) (use Cons.prems(3) in simp)
  show ?case
  proof (cases r1)
    case (Inl e)
    with Cons.prems(1) b1 have "b = a1" by simp
    with first show ?thesis by simp
  next
    case (Inr u)
    with Cons.prems(1) b1 have "for_each (write_item_graph py info) edges a1 = (r, b)" by simp
    moreover from first Cons.prems(2) have "resolve a1 (out_dir info) = Inr d"
      by (rule only_stamped_issues_resolve)
    moreover from Cons.prems(3) have "list_all integer_numbered edges" by simp
    ultimately have "only_stamped_issues py d a1 b" by (rule Cons.IH)
    with first show ?thesis by (rule only_stamped_issues_trans)
  qed
qed

lemma handle_result_stamped:
  assumes "handle_result py info result a = (r, b)" "resolve a (out_dir info) = Inr d"
    "list_all integer_numbered (edges_of result)"
  shows "only_stamped_issues py d a b"
proof (cases "\<exists>repo issues edges page_info edge_list.
    getitem result ''repository'' = Inr repo \<and> getitem repo ''issues'' = Inr issues \<and>
    getitem issues ''edges'' = Inr edges \<and> getitem issues ''pageInfo'' = Inr page_info \<and>
    iterate edges = Inr edge_list")
  case False
  with assms(1) have "b = a"
    by (auto simp: handle_result_def split: sum.splits)
  then show ?thesis by (simp add: only_stamped_issues_refl)
next
  case True
  then obtain repo issues edges page_info edge_list where
    g: "getitem result ''repository'' = Inr repo" "getitem repo ''issues'' = Inr issues"
      "getitem issues ''edges'' = Inr edges" "getitem issues ''pageInfo'' = Inr page_info"
      "iterate edges = Inr edge_list"
    by blast
  then have e: "edges_of result = edge_list" by (simp add: edges_of_def)
  obtain r' f' where loop: "for_each (write_item_graph py info) edge_list a = (r', f')"
    by (cases "for_each (write_item_graph py info) edge_list a")
  with assms(1) g have "b = f'"
    by (auto simp: handle_result_def split: sum.splits if_splits)
  moreover from loop assms(2) have "only_stamped_issues py d a f'"
    by (rule for_each_write_item_graph_stamped) (use assms(3) e in simp)
  ultimately show ?thesis by simp
qed

lemma scrap_page_graph_stamped:
  assumes "scrap_page_graph py env cl info cursor w = (r, w')"
    "resolve (fs w) (out_dir info) = Inr d"
    "\<And>n result. responses env n = Inr result \<Longrightarrow> list_all integer_numbered (edges_of result)"
  shows "only_stamped_issues py d (fs w) (fs w')"
proof (cases "\<exists>owner name result. split CHR ''/'' (project info) = [owner, name] \<and>
    responses env (length (requests w)) = Inr result")
  case False
  with assms(1) have "fs w' = fs w"
    by (auto simp: scrap_page_graph_def Let_def split: list.splits sum.splits)
  then show ?thesis by (simp add: only_stamped_issues_refl)
next
  case True
  then obtain owner name result where sp: "split CHR ''/'' (project info) = [owner, name]"
    and rs: "responses env (length (requests w)) = Inr result"
    by blast
  obtain r1 f1 where h: "handle_result py info result (fs w) = (r1, f1)"
    by (cases "handle_result py info result (fs w)")
  with assms(1) sp rs have "fs w' = f1"
    by (auto simp: scrap_page_graph_def Let_def)
  moreover from h assms(2) assms(3) [OF rs] have "only_stamped_issues py d (fs w) f1"
    by (rule handle_result_stamped)
  ultimately show ?thesis by simp
qed

lemma scrap_from_cursor_stamped:
  assumes "scrap_from_cursor py env cl info cursor w = Some (r, w')"
    and "resolve (fs w) (out_dir info) = Inr d"
    and "\<And>n result. responses env n = Inr result \<Longrightarrow> list_all integer_numbered (edges_of result)"
  shows "only_stamped_issues py d (fs w) (fs w')"
proof -
  have "resolve (fs w) (out_dir info) = Inr d \<longrightarrow>
      (\<forall>n result. responses env n = Inr result \<longrightarrow> list_all integer_numbered (edges_of result)) \<longrightarrow>
      only_stamped_issues py d (fs w) (fs (snd y))"
    if "scrap_from_cursor py env cl info cursor w = Some y" for y
    using that
  proof (induction py env cl info cursor w y rule: scrap_from_cursor.raw_induct)
    case (1 loop py env cl info cursor w y)
    show ?case
    proof (intro impI)
      assume od: "resolve (fs w) (out_dir info) = Inr d"
        and rs: "\<forall>n result. responses env n = Inr result \<longrightarrow> list_all integer_numbered (edges_of result)"
      obtain r1 w1 where page: "scrap_page_graph py env cl info cursor w = (r1, w1)"
        by (cases "scrap_page_graph py env cl info cursor w")
      from page od have first: "only_stamped_issues py d (fs w) (fs w1)"
        by (rule scrap_page_graph_stamped) (use rs in blast)
      show "only_stamped_issues py d (fs w) (fs (snd y))"
      proof (cases r1)
        case (Inl e)
        with 1(2) page first show ?thesis by auto
      next
        case (Inr c)
        show ?thesis
        proof (cases "c = JNull")
          case True
          with 1(2) page Inr first show ?thesis by auto
        next
          case False
          with 1(2) page Inr have approx: "loop py env cl info c w1 = Some y" by simp
          from 1(3) page Inr False have "scrap_from_cursor py env cl info c w1 = Some y"
            by (subst (asm) scrap_from_cursor.simps) simp
          with approx have "resolve (fs w1) (out_dir info) = Inr d \<longrightarrow>
              (\<forall>n result. responses env n = Inr result \<longrightarrow> list_all integer_numbered (edges_of result)) \<longrightarrow>
              only_stamped_issues py d (fs w1) (fs (snd y))"
            by (rule 1(1))
          moreover from first od have "resolve (fs w1) (out_dir info) = Inr d"
            by (rule only_stamped_issues_resolve)
          ultimately have "only_stamped_issues py d (fs w1) (fs (snd y))" using rs by blast
          with first show ?thesis by (rule only_stamped_issues_trans)
        qed
      qed
    qed
  qed (fact that)
  from this [OF assms(1)] assms(2,3) show ?thesis by simp
qed

lemma main_graph_stamped:
  assumes "main_graph py env args w = Some (r, w')"
    and "resolve (fs w) (Path (arg_out_dir args)) = Inr d"
    and "\<And>n result. responses env n = Inr result \<Longrightarrow> list_all integer_numbered (edges_of result)"
  shows "only_stamped_issues py d (fs w) (fs w')"
proof -
  have scrap: "only_stamped_issues py d (fs w) (fs w2)"
    if "scrap_graph py env cl \<lparr>project = arg_project args, out_dir = Path (arg_out_dir args), since = sn\<rparr>
          (w\<lparr>clients := clients w @ [cl]\<rparr>) = Some (r2, w2)" for cl sn r2 w2
    using scrap_from_cursor_stamped [OF that [unfolded scrap_graph_def], of d] assms(2,3)
    by simp
  from assms(1) show ?thesis
    by (auto simp: main_graph_def Let_def only_stamped_issues_refl
        split: if_splits sum.splits option.splits prod.splits dest: scrap)
qed

text \<open>
  C7. The item writer of the graph variant. Let every number that a node of a response
  carries be an integer, and let the output directory lead to the place \<open>d\<close> of the
  file system. Whatever a finished run of the graph variant changes among the files is a
  file \<open>number.json\<close> in the directory \<open>issues\<close> of \<open>d\<close> that holds the
  serialisation of a record whose field \<open>_format\<close> is 2, and the only directory a run
  may add is \<open>issues\<close> in \<open>d\<close>: nothing goes under \<open>pulls\<close>. And the loop body
  does write: for an edge whose node is a record with an integer number and a title,
  whose file name fits and whose stamped record has a serialisation, with the output
  directory in place and nothing of another kind in the way, it stamps the node with
  \<open>_format = 2\<close>, makes sure \<open>issues\<close> exists in \<open>d\<close> and sets \<open>issues/number.json\<close>
  there to the serialisation of the stamped record.
\<close>

theorem graph_item_writer:
  "(main_graph py env args w = Some (r, w') \<and>
    resolve (fs w) (Path (arg_out_dir args)) = Inr d \<and>
    (\<forall>n result. responses env n = Inr result \<longrightarrow> list_all integer_numbered (edges_of result)) \<longrightarrow>
      (\<forall>p. files (fs w') p \<noteq> files (fs w) p \<longrightarrow>
         (\<exists>i kvs text'. p = d @ [''issues'', str_int i @ ''.json''] \<and>
            files (fs w') p = Some text' \<and> json_dumps py (JObj kvs) 2 True = Inr text' \<and>
            map_of kvs ''_format'' = Some (JInt 2))) \<and>
      dirs (fs w') \<subseteq> insert (d @ [''issues'']) (dirs (fs w))) \<and>
   (getitem edge ''node'' = Inr (JObj kvs') \<and>
    map_of kvs' ''number'' = Some (JInt j) \<and> length (str_int j) + 5 \<le> NAME_MAX \<and>
    map_of kvs' ''title'' = Some title \<and>
    json_dumps py (JObj (update_item ''_format'' (JInt 2) kvs')) 2 True = Inr t \<and>
    resolve fsys (out_dir info) = Inr d' \<and> d' \<in> dirs fsys \<and>
    fs_length (fspath (out_dir info)) + 263 < PATH_MAX \<and>
    d' @ [''issues''] \<notin> dom (files fsys) \<and>
    d' @ [''issues'', str_int j @ ''.json''] \<notin> dirs fsys \<longrightarrow>
      write_item_graph py info edge fsys
      = (Inr (),
         fsys\<lparr>dirs := insert (d' @ [''issues'']) (dirs fsys),
              files := (files fsys)(d' @ [''issues'', str_int j @ ''.json''] \<mapsto> t)\<rparr>))"
proof -
  have "only_stamped_issues py d (fs w) (fs w')"
    if "main_graph py env args w = Some (r, w')"
      "resolve (fs w) (Path (arg_out_dir args)) = Inr d"
      "\<forall>n result. responses env n = Inr result \<longrightarrow> list_all integer_numbered (edges_of result)"
    using that(1,2) by (rule main_graph_stamped) (use that(3) in blast)
  then show ?thesis
    using write_item_graph_effect [of edge kvs' j title py t fsys info d']
    unfolding only_stamped_issues_def stamped_issue_file_def by blast
qed

text \<open>
  The run over the sample data: the one file that changes is \<open>issues/5.json\<close> in the
  output directory, it holds a stamped record, and no directory is added.
\<close>

theorem graph_item_writer_witness:
  "(\<exists>i kvs text'.
      [''home'', ''me'', ''out'', ''issues'', ''5.json'']
      = [''home'', ''me'', ''out''] @ [''issues'', str_int i @ ''.json''] \<and>
      files (fs (snd (the (main_graph sample_python (sample_env last_page) sample_args
        (sample_world :: gql_request world)))))
        [''home'', ''me'', ''out'', ''issues'', ''5.json''] = Some text' \<and>
      json_dumps sample_python (JObj kvs) 2 True = Inr text' \<and>
      map_of kvs ''_format'' = Some (JInt 2)) \<and>
   dirs (fs (snd (the (main_graph sample_python (sample_env last_page) sample_args
        (sample_world :: gql_request world)))))
   \<subseteq> insert [''home'', ''me'', ''out'', ''issues''] (dirs sample_fs) \<and>
   write_item_graph sample_python sample_info (JObj [(''node'', node5)]) sample_fs
   = (Inr (),
      \<lparr>cwd = [''home'', ''me''],
       dirs = {[], [''home''], [''home'', ''me''], [''home'', ''me'', ''out''],
               [''home'', ''me'', ''out'', ''issues'']},
       files = [[''home'', ''me'', ''out'', ''issues'', ''8.json''] \<mapsto> ''old'',
                [''home'', ''me'', ''out'', ''issues'', ''5.json''] \<mapsto> ''json of #5'']\<rparr>)"
proof -
  let ?w = "sample_world :: gql_request world"
  let ?run = "main_graph sample_python (sample_env last_page) sample_args ?w"
  let ?d = "[''home'', ''me'', ''out'']"
  let ?p = "[''home'', ''me'', ''out'', ''issues'', ''5.json'']"
  let ?kvs = "[(''number'', JInt 5), (''title'', JStr ''Typo'')]"
  have five: "str_int 5 = ''5''" by (simp add: str_int_def str_nat.simps)
  have run: "?run = Some (Inr 0, snd (the ?run))"
    by (simp add: main_graph_sample_run)
  have od: "resolve (fs ?w) (Path (arg_out_dir sample_args)) = Inr ?d"
    by (simp add: sample_args_def sample_world_def sample_fs_def resolve_sample_out_dir)
  have rs: "\<forall>n result. responses (sample_env last_page) n = Inr result \<longrightarrow>
      list_all integer_numbered (edges_of result)"
    by (simp add: sample_env_def last_page_def graph_result_def edges_of_def getitem_def
        iterate_def integer_numbered_def node5_def)
  have changed: "files (fs (snd (the ?run))) ?p \<noteq> files (fs ?w) ?p"
    by (simp add: main_graph_sample_run) (simp add: sample_world_def sample_fs_def)
  have od': "resolve sample_fs (out_dir sample_info) = Inr ?d"
    by (simp add: sample_info_def sample_fs_def resolve_sample_out_dir)
  have len: "fs_length (fspath (out_dir sample_info)) + 263 < PATH_MAX"
    by (simp add: sample_info_def sample_out_dir PATH_MAX_def)
  have edge: "getitem (JObj [(''node'', node5)]) ''node'' = Inr (JObj ?kvs) \<and>
      map_of ?kvs ''number'' = Some (JInt 5) \<and> length (str_int 5) + 5 \<le> NAME_MAX \<and>
      map_of ?kvs ''title'' = Some (JStr ''Typo'') \<and>
      json_dumps sample_python (JObj (update_item ''_format'' (JInt 2) ?kvs)) 2 True
      = Inr ''json of #5'' \<and>
      resolve sample_fs (out_dir sample_info) = Inr ?d \<and> ?d \<in> dirs sample_fs \<and>
      fs_length (fspath (out_dir sample_info)) + 263 < PATH_MAX \<and>
      ?d @ [''issues''] \<notin> dom (files sample_fs) \<and>
      ?d @ [''issues'', str_int 5 @ ''.json''] \<notin> dirs sample_fs"
    using od' len
    by (simp add: getitem_def node5_def five NAME_MAX_def sample_python_def)
      (simp add: sample_fs_def)
  note inst = graph_item_writer [where py = sample_python and env = "sample_env last_page"
      and args = sample_args and w = ?w and r = "Inr 0" and w' = "snd (the ?run)" and d = ?d
      and edge = "JObj [(''node'', node5)]" and kvs' = ?kvs and j = 5
      and title = "JStr ''Typo''" and t = "''json of #5''" and fsys = sample_fs
      and info = sample_info and d' = ?d]
  from inst run od rs have
    files: "\<forall>p. files (fs (snd (the ?run))) p \<noteq> files (fs ?w) p \<longrightarrow>
         (\<exists>i kvs text'. p = ?d @ [''issues'', str_int i @ ''.json''] \<and>
            files (fs (snd (the ?run))) p = Some text' \<and>
            json_dumps sample_python (JObj kvs) 2 True = Inr text' \<and>
            map_of kvs ''_format'' = Some (JInt 2))"
    and dirs: "dirs (fs (snd (the ?run))) \<subseteq> insert (?d @ [''issues'']) (dirs (fs ?w))"
    by blast+
  from inst edge have "write_item_graph sample_python sample_info (JObj [(''node'', node5)]) sample_fs
      = (Inr (),
         sample_fs\<lparr>dirs := insert (?d @ [''issues'']) (dirs sample_fs),
           files := (files sample_fs)(?d @ [''issues'', str_int 5 @ ''.json''] \<mapsto> ''json of #5'')\<rparr>)"
    by blast
  then have body: "write_item_graph sample_python sample_info (JObj [(''node'', node5)]) sample_fs
   = (Inr (),
      \<lparr>cwd = [''home'', ''me''],
       dirs = {[], [''home''], [''home'', ''me''], [''home'', ''me'', ''out''],
               [''home'', ''me'', ''out'', ''issues'']},
       files = [[''home'', ''me'', ''out'', ''issues'', ''8.json''] \<mapsto> ''old'',
                [''home'', ''me'', ''out'', ''issues'', ''5.json''] \<mapsto> ''json of #5'']\<rparr>)"
    by (auto simp: sample_fs_def five)
  from files changed have "\<exists>i kvs text'. ?p = ?d @ [''issues'', str_int i @ ''.json''] \<and>
      files (fs (snd (the ?run))) ?p = Some text' \<and>
      json_dumps sample_python (JObj kvs) 2 True = Inr text' \<and>
      map_of kvs ''_format'' = Some (JInt 2)"
    by blast
  moreover from dirs have "dirs (fs (snd (the ?run)))
      \<subseteq> insert [''home'', ''me'', ''out'', ''issues''] (dirs sample_fs)"
    by (simp add: sample_world_def)
  ultimately show ?thesis using body by blast
qed

end
